theory Spec2Isabelle
  imports Complex_Main "HOL-Library.Word"
begin

section \<open>tinyfs: a flat file store over one backing image\<close>

text \<open>
  The development embeds \<^verbatim>\<open>src/tinyfs.c\<close>: the superblock, the inode table, the
  free-block bitmap and the operations \<^verbatim>\<open>fs_init\<close>, \<^verbatim>\<open>fs_create_file\<close>,
  \<^verbatim>\<open>fs_write_file\<close>, \<^verbatim>\<open>fs_read_file\<close> and \<^verbatim>\<open>fs_list_files\<close>. Two functions of
  the sibling files are embedded beside them: \<^verbatim>\<open>fs_create_file\<close> of \<^verbatim>\<open>src/omin.c\<close>
  and \<^verbatim>\<open>get_free_block\<close> of \<^verbatim>\<open>src/minifs_2.c\<close>.

  Conventions.
  \<^item> A C \<^verbatim>\<open>int\<close> is an \<open>int\<close>: every value the operations compute from a formatted
    image stays far inside the 32-bit range (block indices below 1024, lengths up to
    40960 + 4095, a counter that starts at 1023 and is decremented at most 1019 times).
  \<^item> A C string argument is the list of its bytes before the terminator, so
    \<^verbatim>\<open>strlen\<close> is \<open>length\<close>. The 32-byte name buffer of an inode is likewise the
    list of its bytes before the first NUL; this is exact for names shorter than
    \<^verbatim>\<open>MAX_FILENAME\<close>, which is all the caller's own 32-byte buffer can hold.
  \<^item> \<^verbatim>\<open>time(NULL)\<close> is an argument \<open>now\<close> of the operation that calls it.
  \<^item> An array is a list of the array's length; the loops index it as the code does.
  \<^item> The return values of \<^verbatim>\<open>fseek\<close>, \<^verbatim>\<open>fwrite\<close>, \<^verbatim>\<open>fread\<close> are ignored by the
    code; the model takes the calls to succeed, and \<^verbatim>\<open>malloc\<close> as well.
\<close>

subsection \<open>Constants\<close>

definition BLOCK_SIZE :: nat where "BLOCK_SIZE = 4096"
definition TOTAL_BLOCKS :: nat where "TOTAL_BLOCKS = 1024"
definition MAX_INODES :: nat where "MAX_INODES = 128"
definition MAX_FILENAME :: nat where "MAX_FILENAME = 32"
definition MAX_FILE_SIZE :: nat where "MAX_FILE_SIZE = BLOCK_SIZE * 10"

text \<open>The length of \<^verbatim>\<open>Inode.blocks\<close>: \<^verbatim>\<open>MAX_FILE_SIZE / BLOCK_SIZE\<close>.\<close>

definition NBLOCKS :: nat where "NBLOCKS = MAX_FILE_SIZE div BLOCK_SIZE"

subsection \<open>Data\<close>

record Superblock =
  total_blocks :: int
  free_blocks :: int
  block_size :: int
  inode_table_start :: int
  bitmap_start :: int
  data_start :: int

record Inode =
  name :: string
  size_bytes :: int
  blocks :: "int list"
  created :: int
  modified :: int

text \<open>
  The backing file, by region. \<open>img_super\<close>, \<open>img_inodes\<close> and \<open>img_bitmap\<close> are
  the structures last written at offset 0, at \<^verbatim>\<open>inode_table_start * BLOCK_SIZE\<close> and at
  \<^verbatim>\<open>bitmap_start * BLOCK_SIZE\<close>. \<open>img_data b\<close> is the content of the \<^verbatim>\<open>BLOCK_SIZE\<close>
  bytes at offset \<^verbatim>\<open>b * BLOCK_SIZE\<close>, or \<open>None\<close> where the model does not determine
  them (bytes of the metadata regions, whose layout is the compiler's, and bytes past
  the end of the file). The view by region is exact as long as every block that is
  written or read through \<open>img_data\<close> lies at or after \<^verbatim>\<open>data_start\<close> and the
  layout is the one format computes, with the inode table and the bitmap before
  \<^verbatim>\<open>data_start\<close>; this holds in every state a session reaches from a formatted image.
  In an image that mount accepts with a block inside the table, the write of the table
  would overwrite the block, and the model does not follow that.
\<close>

record Image =
  img_super :: Superblock
  img_inodes :: "Inode list"
  img_bitmap :: "8 word list"
  img_data :: "int \<Rightarrow> char list option"

record FileSystem =
  super :: Superblock
  inodes :: "Inode list"
  bitmap :: "8 word list"
  fp :: Image

subsection \<open>Bitmap helpers\<close>

text \<open>
  \<^verbatim>\<open>for (int i = data_start; i < total_blocks; i++) if (bitmap[i] == 0) return i;\<close>
  \<^verbatim>\<open>return -1;\<close> The function only reads the state, so the model returns the index alone.
\<close>

function get_free_block_from :: "FileSystem \<Rightarrow> int \<Rightarrow> int" where
  "get_free_block_from fs i =
     (if i < total_blocks (super fs)
      then (if bitmap fs ! nat i = 0 then i else get_free_block_from fs (i + 1))
      else - 1)"
  by pat_completeness auto
termination
  by (relation "measure (\<lambda>(fs, i). nat (total_blocks (super fs) - i))") auto

declare get_free_block_from.simps [simp del]

definition get_free_block :: "FileSystem \<Rightarrow> int" where
  "get_free_block fs = get_free_block_from fs (data_start (super fs))"

text \<open>
  \<^verbatim>\<open>if (block < 0 || block >= TOTAL_BLOCKS) return; fs->bitmap[block] = value;\<close>
  The store converts the \<^verbatim>\<open>int\<close> to \<^verbatim>\<open>unsigned char\<close>.
\<close>

definition set_block :: "FileSystem \<Rightarrow> int \<Rightarrow> int \<Rightarrow> FileSystem" where
  "set_block fs block v =
     (if block < 0 \<or> block \<ge> int TOTAL_BLOCKS then fs
      else fs\<lparr>bitmap := (bitmap fs)[nat block := word_of_int v]\<rparr>)"

text \<open>
  \<^verbatim>\<open>get_free_block\<close> of \<^verbatim>\<open>src/minifs_2.c\<close> scans the global bitmap from 0 to
  \<^verbatim>\<open>TOTAL_BLOCKS\<close>; its \<^verbatim>\<open>fs_init\<close> sets \<^verbatim>\<open>data_start = 0\<close> and
  \<^verbatim>\<open>total_blocks = TOTAL_BLOCKS\<close> and nothing changes them.
\<close>

function minifs2_get_free_block_from :: "8 word list \<Rightarrow> int \<Rightarrow> int" where
  "minifs2_get_free_block_from bm i =
     (if i < int TOTAL_BLOCKS
      then (if bm ! nat i = 0 then i else minifs2_get_free_block_from bm (i + 1))
      else - 1)"
  by pat_completeness auto
termination
  by (relation "measure (\<lambda>(bm, i). nat (int TOTAL_BLOCKS - i))") auto

declare minifs2_get_free_block_from.simps [simp del]

definition minifs2_get_free_block :: "8 word list \<Rightarrow> int" where
  "minifs2_get_free_block bm = minifs2_get_free_block_from bm 0"

subsection \<open>Format and mount\<close>

text \<open>
  The format path of \<^verbatim>\<open>fs_init\<close>. \<open>isz\<close> is \<^verbatim>\<open>sizeof(Inode)\<close>, which the
  compiler fixes (96 on the usual 64-bit ABIs); \<^verbatim>\<open>sizeof(fs->bitmap)\<close> is
  \<^verbatim>\<open>TOTAL_BLOCKS\<close>.
\<close>

definition format_super :: "nat \<Rightarrow> Superblock" where
  "format_super isz =
     (let its = 1;
          bs = its + int ((isz * MAX_INODES) div BLOCK_SIZE)
                   + (if (isz * MAX_INODES) mod BLOCK_SIZE \<noteq> 0 then 1 else 0);
          ds = bs + int (TOTAL_BLOCKS div BLOCK_SIZE)
                  + (if TOTAL_BLOCKS mod BLOCK_SIZE \<noteq> 0 then 1 else 0)
      in \<lparr>total_blocks = int TOTAL_BLOCKS, free_blocks = int TOTAL_BLOCKS - 1,
          block_size = int BLOCK_SIZE, inode_table_start = its,
          bitmap_start = bs, data_start = ds\<rparr>)"

text \<open>\<^verbatim>\<open>memset(fs->inodes, 0, sizeof(fs->inodes))\<close>: every field of every slot is zero.\<close>

definition zero_inode :: Inode where
  "zero_inode = \<lparr>name = [], size_bytes = 0, blocks = replicate NBLOCKS 0, created = 0, modified = 0\<rparr>"

text \<open>
  The zero blocks are written one after the other from the position the bitmap write
  left, \<^verbatim>\<open>bitmap_start * BLOCK_SIZE + TOTAL_BLOCKS\<close>, with no seek to
  \<^verbatim>\<open>data_start * BLOCK_SIZE\<close>: the file ends at that position plus
  \<^verbatim>\<open>(TOTAL_BLOCKS - data_start) * BLOCK_SIZE\<close>. \<open>format_data\<close> gives a block its
  zeros when the block lies inside the written range.
\<close>

definition format_data :: "Superblock \<Rightarrow> int \<Rightarrow> char list option" where
  "format_data sb b =
     (let start = bitmap_start sb * int BLOCK_SIZE + int TOTAL_BLOCKS;
          stop = start + (int TOTAL_BLOCKS - data_start sb) * int BLOCK_SIZE
      in if data_start sb \<le> b \<and> start \<le> b * int BLOCK_SIZE
            \<and> (b + 1) * int BLOCK_SIZE \<le> stop
         then Some (replicate BLOCK_SIZE (CHR 0x00)) else None)"

definition fs_format :: "nat \<Rightarrow> FileSystem" where
  "fs_format isz =
     (let sb = format_super isz;
          fs0 = \<lparr>super = sb, inodes = replicate MAX_INODES zero_inode,
                 bitmap = replicate TOTAL_BLOCKS 0,
                 fp = \<lparr>img_super = sb, img_inodes = [], img_bitmap = [],
                        img_data = (\<lambda>b. None)\<rparr>\<rparr>;
          fs1 = set_block fs0 0 1
      in fs1\<lparr>fp := \<lparr>img_super = super fs1, img_inodes = inodes fs1,
                     img_bitmap = bitmap fs1, img_data = format_data sb\<rparr>\<rparr>)"

text \<open>The mount path reads the three structures back as they are in the file.\<close>

definition fs_mount :: "Image \<Rightarrow> FileSystem" where
  "fs_mount img =
     \<lparr>super = img_super img, inodes = img_inodes img, bitmap = img_bitmap img, fp = img\<rparr>"

text \<open>\<^verbatim>\<open>fs_init\<close>: mount the image when the file exists, format otherwise.\<close>

definition fs_init :: "Image option \<Rightarrow> nat \<Rightarrow> FileSystem" where
  "fs_init file isz = (case file of None \<Rightarrow> fs_format isz | Some img \<Rightarrow> fs_mount img)"

subsection \<open>Inode table\<close>

datatype error = AlreadyExists | NoFreeInode | NotFound | TooLarge | NoFreeBlock

text \<open>
  \<^verbatim>\<open>for (int i = 0; i < MAX_INODES; i++)\<close>
  \<^verbatim>\<open>if (inodes[i].name[0] != '\0' && strcmp(inodes[i].name, name) == 0) return i;\<close>
  \<^verbatim>\<open>return -1;\<close>
\<close>

function fs_find_inode_from :: "FileSystem \<Rightarrow> string \<Rightarrow> nat \<Rightarrow> int" where
  "fs_find_inode_from fs nm i =
     (if i < MAX_INODES
      then (if name (inodes fs ! i) \<noteq> [] \<and> name (inodes fs ! i) = nm then int i
            else fs_find_inode_from fs nm (i + 1))
      else - 1)"
  by pat_completeness auto
termination
  by (relation "measure (\<lambda>(fs, nm, i). MAX_INODES - i)") auto

declare fs_find_inode_from.simps [simp del]

definition fs_find_inode :: "FileSystem \<Rightarrow> string \<Rightarrow> int" where
  "fs_find_inode fs nm = fs_find_inode_from fs nm 0"

text \<open>The search for a free slot in \<^verbatim>\<open>fs_create_file\<close>: the first \<^verbatim>\<open>name[0] == '\0'\<close>.\<close>

function find_free_inode_from :: "FileSystem \<Rightarrow> nat \<Rightarrow> int" where
  "find_free_inode_from fs i =
     (if i < MAX_INODES
      then (if name (inodes fs ! i) = [] then int i else find_free_inode_from fs (i + 1))
      else - 1)"
  by pat_completeness auto
termination
  by (relation "measure (\<lambda>(fs, i). MAX_INODES - i)") auto

declare find_free_inode_from.simps [simp del]

text \<open>
  \<^verbatim>\<open>strncpy(dst, name, MAX_FILENAME)\<close> copies the name and pads with NUL when the name
  is shorter than \<^verbatim>\<open>MAX_FILENAME\<close>; a longer name fills the buffer and leaves it
  without a terminator, so that \<^verbatim>\<open>strcmp\<close> reads on into \<^verbatim>\<open>size\<close>. The list of 32
  bytes stands for that only roughly: the lookup of the model is exact for names shorter
  than \<^verbatim>\<open>MAX_FILENAME\<close>, and the theorems about a lookup that follows a create or a
  write carry that bound.
\<close>

definition strncpy_name :: "string \<Rightarrow> string" where
  "strncpy_name nm = take MAX_FILENAME nm"

text \<open>The inode table is written to the file as a whole.\<close>

definition flush_inodes :: "FileSystem \<Rightarrow> FileSystem" where
  "flush_inodes fs = fs\<lparr>fp := (fp fs)\<lparr>img_inodes := inodes fs\<rparr>\<rparr>"

definition flush_bitmap :: "FileSystem \<Rightarrow> FileSystem" where
  "flush_bitmap fs = fs\<lparr>fp := (fp fs)\<lparr>img_bitmap := bitmap fs\<rparr>\<rparr>"

definition flush_super :: "FileSystem \<Rightarrow> FileSystem" where
  "flush_super fs = fs\<lparr>fp := (fp fs)\<lparr>img_super := super fs\<rparr>\<rparr>"

text \<open>
  \<^verbatim>\<open>fs_create_file\<close>. Every failure returns -1 in the code, after printing which one
  it is; the model returns the state together with the error or the slot number.
  \<^verbatim>\<open>memset(blocks, -1, sizeof blocks)\<close> sets every byte to 0xFF, every entry to -1.
\<close>

definition fs_create_file :: "FileSystem \<Rightarrow> string \<Rightarrow> int \<Rightarrow> FileSystem \<times> (error + int)" where
  "fs_create_file fs nm now =
     (if fs_find_inode fs nm \<noteq> - 1 then (fs, Inl AlreadyExists)
      else
        let inode_num = find_free_inode_from fs 0 in
        if inode_num = - 1 then (fs, Inl NoFreeInode)
        else
          let ino = (inodes fs ! nat inode_num)
                      \<lparr>name := strncpy_name nm, size_bytes := 0,
                       blocks := replicate NBLOCKS (- 1), created := now, modified := now\<rparr>;
              fs1 = fs\<lparr>inodes := (inodes fs)[nat inode_num := ino]\<rparr>
          in (flush_inodes fs1, Inr inode_num))"

subsection \<open>Writing\<close>

text \<open>\<open>inode->blocks[i] = block\<close> for the inode in slot \<open>ino\<close>.\<close>

definition set_inode_block :: "FileSystem \<Rightarrow> nat \<Rightarrow> nat \<Rightarrow> int \<Rightarrow> FileSystem" where
  "set_inode_block fs ino i block =
     fs\<lparr>inodes := (inodes fs)[ino := (inodes fs ! ino)
                       \<lparr>blocks := (blocks (inodes fs ! ino))[i := block]\<rparr>]\<rparr>"

text \<open>\<^verbatim>\<open>fs->super.free_blocks--\<close>\<close>

definition dec_free_blocks :: "FileSystem \<Rightarrow> FileSystem" where
  "dec_free_blocks fs = fs\<lparr>super := (super fs)\<lparr>free_blocks := free_blocks (super fs) - 1\<rparr>\<rparr>"

text \<open>
  The body of the allocation loop once \<^verbatim>\<open>get_free_block\<close> has returned
  \<open>block\<close>: the entry is stored, the block is marked, the counter is decremented,
  and the bitmap and the superblock are written to the file.
\<close>

definition alloc_at :: "FileSystem \<Rightarrow> nat \<Rightarrow> nat \<Rightarrow> int \<Rightarrow> FileSystem" where
  "alloc_at fs ino i block =
     flush_super (flush_bitmap (dec_free_blocks
       (set_block (set_inode_block fs ino i block) block 1)))"

text \<open>
  The allocation loop of \<^verbatim>\<open>fs_write_file\<close>, from position \<open>i\<close>. The flag is
  \<open>False\<close> when \<^verbatim>\<open>get_free_block\<close> returned -1 and the function returned early; the
  state it returns then is the state the early return leaves.
\<close>

function alloc_blocks :: "FileSystem \<Rightarrow> nat \<Rightarrow> nat \<Rightarrow> nat \<Rightarrow> FileSystem \<times> bool" where
  "alloc_blocks fs ino i blocks_needed =
     (if i < blocks_needed
      then (if blocks (inodes fs ! ino) ! i = - 1
            then (let block = get_free_block fs in
                  if block = - 1 then (fs, False)
                  else alloc_blocks (alloc_at fs ino i block) ino (i + 1) blocks_needed)
            else alloc_blocks fs ino (i + 1) blocks_needed)
      else (fs, True))"
  by pat_completeness auto
termination
  by (relation "measure (\<lambda>(fs, ino, i, blocks_needed). blocks_needed - i)") auto

declare alloc_blocks.simps [simp del]

definition NUL :: char where "NUL = CHR 0x00"

text \<open>
  The buffer of one block: \<^verbatim>\<open>memset(buffer, 0, BLOCK_SIZE)\<close> then
  \<^verbatim>\<open>memcpy(buffer, data + i * BLOCK_SIZE, copy_len)\<close>. When the copy would read
  past the end of the string the bytes are not determined (\<open>None\<close>).
\<close>

definition block_buffer :: "string \<Rightarrow> nat \<Rightarrow> nat \<Rightarrow> char list option" where
  "block_buffer data i copy_len =
     (if i * BLOCK_SIZE + copy_len \<le> length data
      then Some (take copy_len (drop (i * BLOCK_SIZE) data) @ replicate (BLOCK_SIZE - copy_len) NUL)
      else None)"

text \<open>\<^verbatim>\<open>fseek(fp, block * BLOCK_SIZE, SEEK_SET); fwrite(buffer, 1, BLOCK_SIZE, fp)\<close>\<close>

definition write_block :: "FileSystem \<Rightarrow> int \<Rightarrow> char list option \<Rightarrow> FileSystem" where
  "write_block fs block buffer =
     fs\<lparr>fp := (fp fs)\<lparr>img_data := (img_data (fp fs))(block := buffer)\<rparr>\<rparr>"

text \<open>
  The data loop of \<^verbatim>\<open>fs_write_file\<close>, from position \<open>i\<close>, with \<open>data_len\<close> the
  bytes still to write. A position whose entry is -1 is skipped by \<^verbatim>\<open>continue\<close>,
  without changing \<open>data_len\<close>.
\<close>

function write_blocks :: "FileSystem \<Rightarrow> nat \<Rightarrow> string \<Rightarrow> nat \<Rightarrow> nat \<Rightarrow> nat \<Rightarrow> FileSystem" where
  "write_blocks fs ino data i blocks_needed data_len =
     (if i < blocks_needed
      then (let block = blocks (inodes fs ! ino) ! i in
            if block = - 1 then write_blocks fs ino data (i + 1) blocks_needed data_len
            else
              let copy_len = (if data_len > BLOCK_SIZE then BLOCK_SIZE else data_len)
              in write_blocks (write_block fs block (block_buffer data i copy_len))
                   ino data (i + 1) blocks_needed (data_len - copy_len))
      else fs)"
  by pat_completeness auto
termination
  by (relation "measure (\<lambda>(fs, ino, data, i, blocks_needed, data_len). blocks_needed - i)") auto

declare write_blocks.simps [simp del]

text \<open>\<open>inode->size = strlen(data); inode->modified = time(NULL)\<close>\<close>

definition set_inode_size :: "FileSystem \<Rightarrow> nat \<Rightarrow> int \<Rightarrow> int \<Rightarrow> FileSystem" where
  "set_inode_size fs ino sz now =
     fs\<lparr>inodes := (inodes fs)[ino := (inodes fs ! ino)\<lparr>size_bytes := sz, modified := now\<rparr>]\<rparr>"

definition fs_write_file ::
    "FileSystem \<Rightarrow> string \<Rightarrow> string \<Rightarrow> int \<Rightarrow> FileSystem \<times> (error + int)" where
  "fs_write_file fs nm data now =
     (let inode_num = fs_find_inode fs nm in
      if inode_num = - 1 then (fs, Inl NotFound)
      else
        let data_len = length data in
        if data_len > MAX_FILE_SIZE then (fs, Inl TooLarge)
        else
          let blocks_needed = (data_len + BLOCK_SIZE - 1) div BLOCK_SIZE;
              (fs1, ok) = alloc_blocks fs (nat inode_num) 0 blocks_needed
          in if \<not> ok then (fs1, Inl NoFreeBlock)
             else
               let fs2 = write_blocks fs1 (nat inode_num) data 0 blocks_needed data_len;
                   fs3 = set_inode_size fs2 (nat inode_num) (int (length data)) now
               in (flush_inodes fs3, Inr 0))"

subsection \<open>Reading\<close>

text \<open>
  A byte of memory that the program has not written holds no determined value: a cell
  is \<open>None\<close> then. \<^verbatim>\<open>malloc\<close> and the declaration of \<^verbatim>\<open>buffer\<close> give such cells.
\<close>

type_synonym cell = "char option"

text \<open>
  \<^verbatim>\<open>fseek(fp, block * BLOCK_SIZE, SEEK_SET); fread(buffer, 1, BLOCK_SIZE, fp)\<close> into
  the fresh \<^verbatim>\<open>buffer\<close>.
\<close>

definition read_block :: "FileSystem \<Rightarrow> int \<Rightarrow> cell list" where
  "read_block fs block =
     (case img_data (fp fs) block of
        None \<Rightarrow> replicate BLOCK_SIZE None
      | Some bytes \<Rightarrow> take BLOCK_SIZE (map Some bytes @ replicate BLOCK_SIZE None))"

text \<open>\<^verbatim>\<open>memcpy(dst + off, src, n)\<close>\<close>

definition memcpy_at :: "cell list \<Rightarrow> nat \<Rightarrow> cell list \<Rightarrow> nat \<Rightarrow> cell list" where
  "memcpy_at dst off src n = take off dst @ take n src @ drop (off + n) dst"

text \<open>
  The loop of \<^verbatim>\<open>fs_read_file\<close>:
  \<^verbatim>\<open>for (i = 0; i < MAX_FILE_SIZE / BLOCK_SIZE && bytes_read < inode->size; i++)\<close>,
  which breaks at the first entry that is -1.
\<close>

function read_blocks :: "FileSystem \<Rightarrow> nat \<Rightarrow> nat \<Rightarrow> nat \<Rightarrow> cell list \<Rightarrow> cell list" where
  "read_blocks fs ino i bytes_read data =
     (if i < NBLOCKS \<and> int bytes_read < size_bytes (inodes fs ! ino)
      then (let block = blocks (inodes fs ! ino) ! i in
            if block = - 1 then data
            else
              let buffer = read_block fs block;
                  copy_len = (if size_bytes (inodes fs ! ino) - int bytes_read > int BLOCK_SIZE
                              then BLOCK_SIZE
                              else nat (size_bytes (inodes fs ! ino) - int bytes_read))
              in read_blocks fs ino (i + 1) (bytes_read + copy_len)
                   (memcpy_at data bytes_read buffer copy_len))
      else data)"
  by pat_completeness auto
termination
  by (relation "measure (\<lambda>(fs, ino, i, bytes_read, data). NBLOCKS - i)") auto

declare read_blocks.simps [simp del]

text \<open>
  What \<^verbatim>\<open>printf("%s", data)\<close> prints: the bytes before the first NUL, as long as
  they are determined.
\<close>

fun c_str :: "cell list \<Rightarrow> string option" where
  "c_str [] = None"
| "c_str (None # cs) = None"
| "c_str (Some c # cs) = (if c = NUL then Some [] else map_option ((#) c) (c_str cs))"

datatype read_result = Read_NotFound | Read_Empty | Read_Content string | Read_Indeterminate

text \<open>
  \<^verbatim>\<open>fs_read_file\<close> changes nothing in the file system, so the model returns what it
  prints. A negative \<^verbatim>\<open>size\<close> makes \<^verbatim>\<open>data[inode->size] = '\0'\<close> a store outside
  the allocation; nothing is determined then.
\<close>

definition fs_read_file :: "FileSystem \<Rightarrow> string \<Rightarrow> read_result" where
  "fs_read_file fs nm =
     (let inode_num = fs_find_inode fs nm in
      if inode_num = - 1 then Read_NotFound
      else
        let sz = size_bytes (inodes fs ! nat inode_num) in
        if sz = 0 then Read_Empty
        else if sz < 0 then Read_Indeterminate
        else
          let data = replicate (nat sz) None @ [Some NUL]
          in case c_str (read_blocks fs (nat inode_num) 0 0 data) of
               None \<Rightarrow> Read_Indeterminate
             | Some s \<Rightarrow> Read_Content s)"

text \<open>The code returns -1 when the file is not found and 0 otherwise.\<close>

fun read_return :: "read_result \<Rightarrow> int" where
  "read_return Read_NotFound = - 1"
| "read_return _ = 0"

text \<open>The content a read delivers: the empty string for an empty file.\<close>

fun read_content :: "read_result \<Rightarrow> string option" where
  "read_content Read_Empty = Some []"
| "read_content (Read_Content s) = Some s"
| "read_content _ = None"

text \<open>\<^verbatim>\<open>fs_list_files\<close> prints name and size of every slot with a name, in table order.\<close>

definition fs_list_files :: "FileSystem \<Rightarrow> (string \<times> int) list" where
  "fs_list_files fs =
     map (\<lambda>ino. (name ino, size_bytes ino)) (filter (\<lambda>ino. name ino \<noteq> []) (take MAX_INODES (inodes fs)))"

subsection \<open>The create of omin.c\<close>




subsection \<open>Sessions\<close>

text \<open>
  The operations a session offers. A name is at most \<^verbatim>\<open>MAX_FILENAME - 1\<close> bytes
  long: the caller reads it into \<^verbatim>\<open>char filename[MAX_FILENAME]\<close>.
\<close>

datatype op = Create string int | Write string string int | Read string | ListFiles

fun op_ok :: "op \<Rightarrow> bool" where
  "op_ok (Create nm now) = (length nm < MAX_FILENAME)"
| "op_ok (Write nm data now) = (length nm < MAX_FILENAME)"
| "op_ok (Read nm) = (length nm < MAX_FILENAME)"
| "op_ok ListFiles = True"

text \<open>Reading and listing leave the file system as it is.\<close>

fun step :: "FileSystem \<Rightarrow> op \<Rightarrow> FileSystem" where
  "step fs (Create nm now) = fst (fs_create_file fs nm now)"
| "step fs (Write nm data now) = fst (fs_write_file fs nm data now)"
| "step fs (Read nm) = fs"
| "step fs ListFiles = fs"

definition run :: "FileSystem \<Rightarrow> op list \<Rightarrow> FileSystem" where
  "run fs ops = foldl step fs ops"

subsection \<open>Properties of a state\<close>

text \<open>
  The arrays have their declared lengths, and the scan of \<^verbatim>\<open>get_free_block\<close> stays
  inside the bitmap.
\<close>

definition fs_shape :: "FileSystem \<Rightarrow> bool" where
  "fs_shape fs \<longleftrightarrow>
     length (inodes fs) = MAX_INODES \<and>
     (\<forall>i\<in>{..<MAX_INODES}. length (blocks (inodes fs ! i)) = NBLOCKS) \<and>
     length (bitmap fs) = TOTAL_BLOCKS \<and>
     0 \<le> data_start (super fs) \<and> total_blocks (super fs) \<le> int TOTAL_BLOCKS"

text \<open>Slot \<open>i\<close> holds a file: \<^verbatim>\<open>name[0] != '\0'\<close>.\<close>

definition used_slot :: "FileSystem \<Rightarrow> nat \<Rightarrow> bool" where
  "used_slot fs i \<longleftrightarrow> name (inodes fs ! i) \<noteq> []"

text \<open>\<^verbatim>\<open>fs->inodes[i].blocks[j]\<close>\<close>

definition block_at :: "FileSystem \<Rightarrow> nat \<Rightarrow> nat \<Rightarrow> int" where
  "block_at fs i j = blocks (inodes fs ! i) ! j"

text \<open>Every block of a file lies in the data region and is marked used.\<close>

definition blocks_owned :: "FileSystem \<Rightarrow> bool" where
  "blocks_owned fs \<longleftrightarrow>
     (\<forall>i\<in>{..<MAX_INODES}. \<forall>j\<in>{..<NBLOCKS}.
        used_slot fs i \<and> block_at fs i j \<noteq> - 1 \<longrightarrow>
          data_start (super fs) \<le> block_at fs i j \<and>
          block_at fs i j < total_blocks (super fs) \<and>
          bitmap fs ! nat (block_at fs i j) = 1)"

text \<open>No block is at two positions of the files.\<close>

definition blocks_unshared :: "FileSystem \<Rightarrow> bool" where
  "blocks_unshared fs \<longleftrightarrow>
     (\<forall>i\<in>{..<MAX_INODES}. \<forall>j\<in>{..<NBLOCKS}. \<forall>i'\<in>{..<MAX_INODES}. \<forall>j'\<in>{..<NBLOCKS}.
        used_slot fs i \<and> used_slot fs i' \<and> block_at fs i j \<noteq> - 1 \<and>
        block_at fs i j = block_at fs i' j' \<longrightarrow> i = i' \<and> j = j')"

definition fs_inv :: "FileSystem \<Rightarrow> bool" where
  "fs_inv fs \<longleftrightarrow> fs_shape fs \<and> blocks_owned fs \<and> blocks_unshared fs"

text \<open>In every slot the entries that are not -1 come first.\<close>

definition blocks_prefix :: "FileSystem \<Rightarrow> bool" where
  "blocks_prefix fs \<longleftrightarrow>
     (\<forall>i\<in>{..<MAX_INODES}. \<forall>j\<in>{..<NBLOCKS}. \<forall>j'\<in>{..<NBLOCKS}.
        j < j' \<and> block_at fs i j = - 1 \<longrightarrow> block_at fs i j' = - 1)"

text \<open>The positions of slot \<open>ino\<close> that are -1 in \<open>fs\<close> and hold a block in \<open>fs'\<close>.\<close>

definition newly_allocated :: "FileSystem \<Rightarrow> FileSystem \<Rightarrow> nat \<Rightarrow> nat list" where
  "newly_allocated fs fs' ino =
     filter (\<lambda>j. block_at fs ino j = - 1 \<and> block_at fs' ino j \<noteq> - 1) [0..<NBLOCKS]"

text \<open>
  What the allocation loop has done to \<open>fs\<close> when it has run from position \<open>i\<close> to
  position \<open>i'\<close> of slot \<open>ino\<close> and left \<open>fs'\<close>: the positions it passed that held -1
  hold blocks that were free, are now marked and differ from each other; the counter
  has gone down by their number; nothing else of the metadata and no data block has
  changed.
\<close>

definition alloc_effect :: "FileSystem \<Rightarrow> nat \<Rightarrow> nat \<Rightarrow> FileSystem \<Rightarrow> nat \<Rightarrow> bool" where
  "alloc_effect fs ino i fs' i' \<longleftrightarrow>
     i \<le> i' \<and> fs_shape fs' \<and>
     data_start (super fs') = data_start (super fs) \<and>
     total_blocks (super fs') = total_blocks (super fs) \<and>
     img_data (fp fs') = img_data (fp fs) \<and>
     (\<forall>k. name (inodes fs' ! k) = name (inodes fs ! k)
          \<and> size_bytes (inodes fs' ! k) = size_bytes (inodes fs ! k)) \<and>
     (\<forall>k j. k \<noteq> ino \<or> j < i \<or> i' \<le> j \<or> block_at fs ino j \<noteq> - 1
          \<longrightarrow> block_at fs' k j = block_at fs k j) \<and>
     (\<forall>j. i \<le> j \<and> j < i' \<longrightarrow> block_at fs' ino j \<noteq> - 1) \<and>
     free_blocks (super fs')
       = free_blocks (super fs) - int (length (filter (\<lambda>j. block_at fs ino j = - 1) [i..<i'])) \<and>
     (\<forall>j. i \<le> j \<and> j < i' \<and> block_at fs ino j = - 1 \<longrightarrow>
          data_start (super fs) \<le> block_at fs' ino j \<and>
          block_at fs' ino j < total_blocks (super fs) \<and>
          bitmap fs ! nat (block_at fs' ino j) = 0 \<and>
          bitmap fs' ! nat (block_at fs' ino j) = 1) \<and>
     (\<forall>j j'. i \<le> j \<and> j < j' \<and> j' < i' \<and> block_at fs ino j = - 1 \<and> block_at fs ino j' = - 1
          \<longrightarrow> block_at fs' ino j \<noteq> block_at fs' ino j') \<and>
     (\<forall>c. bitmap fs' ! c = bitmap fs ! c \<or> bitmap fs ! c = 0 \<and> bitmap fs' ! c = 1)"

text \<open>\<^verbatim>\<open>blocks_needed\<close> of \<^verbatim>\<open>fs_write_file\<close>, as a function of the data.\<close>

definition blocks_needed_for :: "string \<Rightarrow> nat" where
  "blocks_needed_for data = (length data + BLOCK_SIZE - 1) div BLOCK_SIZE"

text \<open>
  Mount reads whatever the image holds. In this image the only file, \<^verbatim>\<open>a\<close>, has
  block 7 at positions 0 and 1 of its \<^verbatim>\<open>blocks\<close>, and block 7 is marked used.
\<close>

definition shared_block_image :: Image where
  "shared_block_image =
     \<lparr>img_super = (format_super 96)\<lparr>free_blocks := 1022\<rparr>,
      img_inodes = (replicate MAX_INODES zero_inode)
        [0 := \<lparr>name = ''a'', size_bytes = 0, blocks = [7, 7] @ replicate 8 (- 1),
               created = 0, modified = 0\<rparr>],
      img_bitmap = (replicate TOTAL_BLOCKS 0)[0 := 1, 7 := 1],
      img_data = (\<lambda>b. None)\<rparr>"

text \<open>The quotient rounded up, as the format path computes it.\<close>

definition ceil_div :: "nat \<Rightarrow> nat \<Rightarrow> int" where
  "ceil_div n d = int (n div d) + (if n mod d \<noteq> 0 then 1 else 0)"

section \<open>Format\<close>

lemma super_fs_format: "super (fs_format isz) = format_super isz"
  by (simp add: fs_format_def Let_def set_block_def)

lemma bitmap_fs_format:
  "bitmap (fs_format isz) = (replicate TOTAL_BLOCKS 0)[0 := 1]"
  by (simp add: fs_format_def Let_def set_block_def TOTAL_BLOCKS_def)

lemma inodes_fs_format: "inodes (fs_format isz) = replicate MAX_INODES zero_inode"
  by (simp add: fs_format_def Let_def set_block_def)

lemma ceil_nat_div:
  assumes "0 < d"
  shows "\<lceil>real n / real d\<rceil> = int (n div d) + (if n mod d \<noteq> 0 then 1 else 0)"
proof -
  have "\<lceil>real n / real d\<rceil> = - (- int n div int d)"
    using ceiling_divide_eq_div [of "int n" "int d"] by simp
  also have "\<dots> = int n div int d + (if int n mod int d \<noteq> 0 then 1 else 0)"
    using assms by (simp add: zdiv_zminus1_eq_if)
  also have "\<dots> = int (n div d) + (if n mod d \<noteq> 0 then 1 else 0)"
    by (simp flip: of_nat_mod of_nat_div)
  finally show ?thesis .
qed

lemma ceil_div_lo:
  assumes "0 < d" and "0 < n"
  shows "1 \<le> ceil_div n d"
proof (cases "n mod d = 0")
  case True
  then have "d dvd n" by (rule mod_0_imp_dvd)
  then have "d \<le> n" using assms(2) by (rule dvd_imp_le)
  then have "0 < n div d" using assms(1) by (simp add: div_greater_zero_iff)
  then show ?thesis by (simp add: ceil_div_def)
next
  case False
  then show ?thesis by (simp add: ceil_div_def)
qed

lemma ceil_div_hi: "0 < d \<Longrightarrow> n \<le> k * d \<Longrightarrow> ceil_div n d \<le> int k"
proof -
  assume d: "0 < d" and n: "n \<le> k * d"
  show ?thesis
  proof (cases "n mod d = 0")
    case True
    have "n div d \<le> k * d div d" using n by (rule div_le_mono)
    with d True show ?thesis by (simp add: ceil_div_def)
  next
    case False
    have "n \<noteq> k * d" using False by auto
    with n have "n < k * d" by simp
    then have "n div d < k" using d by (simp add: less_mult_imp_div_less)
    with False show ?thesis by (simp add: ceil_div_def)
  qed
qed

text \<open>
  Claim C6. On format the layout is \<open>inode_table_start = 1\<close>,
  \<open>bitmap_start = inode_table_start + \<lceil>inode_table_bytes / block_size\<rceil>\<close> and
  \<open>data_start = bitmap_start + \<lceil>bitmap_bytes / block_size\<rceil>\<close>, and
  \<open>inode_table_start < bitmap_start < data_start \<le> total_blocks\<close>. The inode table has
  \<open>isz * MAX_INODES\<close> bytes, \<open>isz\<close> being \<^verbatim>\<open>sizeof(Inode)\<close>; the statement holds
  for every positive \<open>isz\<close> whose table leaves two blocks of the image free.
\<close>

theorem format_layout:
  assumes "0 < isz" and "isz * MAX_INODES \<le> (TOTAL_BLOCKS - 2) * BLOCK_SIZE"
  shows "let sb = super (fs_format isz) in
           inode_table_start sb = 1 \<and>
           bitmap_start sb = inode_table_start sb + \<lceil>real (isz * MAX_INODES) / real BLOCK_SIZE\<rceil> \<and>
           data_start sb = bitmap_start sb + \<lceil>real TOTAL_BLOCKS / real BLOCK_SIZE\<rceil> \<and>
           inode_table_start sb < bitmap_start sb \<and> bitmap_start sb < data_start sb \<and>
           data_start sb \<le> total_blocks sb"
proof -
  have pos: "0 < BLOCK_SIZE" by (simp add: BLOCK_SIZE_def)
  have npos: "0 < isz * MAX_INODES" using assms(1) by (simp add: MAX_INODES_def)
  have c: "\<lceil>real n / real BLOCK_SIZE\<rceil> = ceil_div n BLOCK_SIZE" for n
    unfolding ceil_div_def by (rule ceil_nat_div [OF pos])
  have its: "inode_table_start (format_super isz) = 1"
    by (simp add: format_super_def Let_def)
  have bs: "bitmap_start (format_super isz) = 1 + ceil_div (isz * MAX_INODES) BLOCK_SIZE"
    by (simp add: format_super_def Let_def ceil_div_def)
  have ds: "data_start (format_super isz)
              = bitmap_start (format_super isz) + ceil_div TOTAL_BLOCKS BLOCK_SIZE"
    by (simp add: format_super_def Let_def ceil_div_def)
  have tb: "total_blocks (format_super isz) = int TOTAL_BLOCKS"
    by (simp add: format_super_def Let_def)
  have c1: "ceil_div TOTAL_BLOCKS BLOCK_SIZE = 1"
    by (simp add: ceil_div_def TOTAL_BLOCKS_def BLOCK_SIZE_def)
  have lo: "1 \<le> ceil_div (isz * MAX_INODES) BLOCK_SIZE"
    using pos npos by (rule ceil_div_lo)
  have "ceil_div (isz * MAX_INODES) BLOCK_SIZE \<le> int (TOTAL_BLOCKS - 2)"
    using pos assms(2) by (rule ceil_div_hi)
  moreover have "int (TOTAL_BLOCKS - 2) = int TOTAL_BLOCKS - 2"
    by (simp add: TOTAL_BLOCKS_def)
  ultimately have hi: "ceil_div (isz * MAX_INODES) BLOCK_SIZE \<le> int TOTAL_BLOCKS - 2"
    by (simp only:)
  have "bitmap_start (format_super isz) = 1 + ceil_div (isz * MAX_INODES) BLOCK_SIZE
      \<and> data_start (format_super isz) = bitmap_start (format_super isz) + 1
      \<and> 1 < bitmap_start (format_super isz)
      \<and> bitmap_start (format_super isz) < data_start (format_super isz)
      \<and> data_start (format_super isz) \<le> int TOTAL_BLOCKS"
    using bs ds c1 lo hi by linarith
  then show ?thesis
    unfolding Let_def super_fs_format c its tb c1 by simp
qed

theorem format_layout_witness:
  "(0::nat) < 96 \<and> 96 * MAX_INODES \<le> (TOTAL_BLOCKS - 2) * BLOCK_SIZE \<and>
   bitmap_start (super (fs_format 96)) = 4 \<and> data_start (super (fs_format 96)) = 5"
proof -
  have h1: "(0::nat) < 96" by simp
  have h2: "96 * MAX_INODES \<le> (TOTAL_BLOCKS - 2) * BLOCK_SIZE"
    by (simp add: MAX_INODES_def TOTAL_BLOCKS_def BLOCK_SIZE_def)
  have pos: "0 < BLOCK_SIZE" by (simp add: BLOCK_SIZE_def)
  have c1: "\<lceil>real (96 * MAX_INODES) / real BLOCK_SIZE\<rceil> = 3"
    unfolding ceil_nat_div [OF pos] by (simp add: MAX_INODES_def BLOCK_SIZE_def)
  have c2: "\<lceil>real TOTAL_BLOCKS / real BLOCK_SIZE\<rceil> = 1"
    unfolding ceil_nat_div [OF pos] by (simp add: TOTAL_BLOCKS_def BLOCK_SIZE_def)
  have "bitmap_start (super (fs_format 96)) = 4 \<and> data_start (super (fs_format 96)) = 5"
    using format_layout [OF h1 h2] unfolding Let_def c1 c2 by simp
  with h1 h2 show ?thesis by (simp only: simp_thms)
qed

text \<open>
  Claim C5. After the format path, bitmap entry 0 is 1, every entry with index in
  \<open>1..total_blocks - 1\<close> is 0, and \<open>free_blocks = total_blocks - 1\<close>.
\<close>

theorem format_bitmap:
  "bitmap (fs_format isz) ! 0 = 1 \<and>
   (\<forall>i. 1 \<le> i \<and> i < total_blocks (super (fs_format isz)) \<longrightarrow> bitmap (fs_format isz) ! nat i = 0) \<and>
   free_blocks (super (fs_format isz)) = total_blocks (super (fs_format isz)) - 1"
proof -
  have "bitmap (fs_format isz) ! 0 = 1"
    by (simp add: bitmap_fs_format TOTAL_BLOCKS_def)
  moreover have "bitmap (fs_format isz) ! nat i = 0"
    if "1 \<le> i" and "i < total_blocks (super (fs_format isz))" for i
  proof -
    from that have "nat i < TOTAL_BLOCKS" and "nat i \<noteq> 0"
      by (simp_all add: super_fs_format format_super_def Let_def)
    then show ?thesis by (simp add: bitmap_fs_format)
  qed
  moreover have "free_blocks (super (fs_format isz)) = total_blocks (super (fs_format isz)) - 1"
    by (simp add: super_fs_format format_super_def Let_def)
  ultimately show ?thesis by blast
qed

theorem format_bitmap_witness:
  "(1::int) \<le> 1023 \<and> 1023 < total_blocks (super (fs_format 96)) \<and>
   bitmap (fs_format 96) ! 0 = 1 \<and> bitmap (fs_format 96) ! nat 1023 = 0 \<and>
   free_blocks (super (fs_format 96)) = 1023"
proof -
  have tb: "total_blocks (super (fs_format 96)) = 1024"
    by (simp add: super_fs_format format_super_def Let_def TOTAL_BLOCKS_def)
  have "(1::int) \<le> 1023 \<and> 1023 < total_blocks (super (fs_format 96))
          \<longrightarrow> bitmap (fs_format 96) ! nat 1023 = 0"
    using format_bitmap [of 96] by blast
  then show ?thesis using format_bitmap [of 96] unfolding tb by simp
qed

lemma get_free_block_from_none:
  "get_free_block_from fs i = - 1 \<Longrightarrow> 0 \<le> i \<Longrightarrow> i \<le> k \<Longrightarrow> k < total_blocks (super fs)
     \<Longrightarrow> bitmap fs ! nat k \<noteq> 0"
proof (induction fs i rule: get_free_block_from.induct)
  case (1 fs i)
  from "1.prems" have lt: "i < total_blocks (super fs)" by simp
  show ?case
  proof (cases "bitmap fs ! nat i = 0")
    case True
    with lt "1.prems" show ?thesis by (simp add: get_free_block_from.simps [of fs i])
  next
    case False
    with lt "1.prems" have eq: "get_free_block_from fs (i + 1) = - 1"
      by (simp add: get_free_block_from.simps [of fs i])
    show ?thesis
    proof (cases "k = i")
      case True
      with False show ?thesis by simp
    next
      case ne: False
      with "1.prems" have "i + 1 \<le> k" and "0 \<le> i + 1" by simp_all
      with "1.IH" [OF lt False eq] "1.prems" show ?thesis by simp
    qed
  qed
qed

lemma get_free_block_from_some:
  "get_free_block_from fs i \<noteq> - 1 \<Longrightarrow>
     i \<le> get_free_block_from fs i \<and> get_free_block_from fs i < total_blocks (super fs)
     \<and> bitmap fs ! nat (get_free_block_from fs i) = 0
     \<and> (\<forall>k. i \<le> k \<and> k < get_free_block_from fs i \<longrightarrow> bitmap fs ! nat k \<noteq> 0)"
proof (induction fs i rule: get_free_block_from.induct)
  case (1 fs i)
  from "1.prems" have lt: "i < total_blocks (super fs)"
    by (simp add: get_free_block_from.simps [of fs i] split: if_splits)
  show ?case
  proof (cases "bitmap fs ! nat i = 0")
    case True
    with lt have "get_free_block_from fs i = i"
      by (simp add: get_free_block_from.simps [of fs i])
    with lt True show ?thesis by auto
  next
    case False
    with lt have eq: "get_free_block_from fs i = get_free_block_from fs (i + 1)"
      by (simp add: get_free_block_from.simps [of fs i])
    from "1.IH" [OF lt False] "1.prems" eq
    have ih: "i + 1 \<le> get_free_block_from fs i"
      "get_free_block_from fs i < total_blocks (super fs)"
      "bitmap fs ! nat (get_free_block_from fs i) = 0"
      "\<And>k. i + 1 \<le> k \<Longrightarrow> k < get_free_block_from fs i \<Longrightarrow> bitmap fs ! nat k \<noteq> 0"
      by simp_all
    have "bitmap fs ! nat k \<noteq> 0" if "i \<le> k" "k < get_free_block_from fs i" for k
    proof (cases "k = i")
      case True
      with False show ?thesis by simp
    next
      case ne: False
      with that have "i + 1 \<le> k" by simp
      then show ?thesis using that(2) by (rule ih(4))
    qed
    with ih(1-3) show ?thesis by simp
  qed
qed


lemma minifs2_get_free_block_from_eq:
  "bitmap fs = bm \<Longrightarrow> total_blocks (super fs) = int TOTAL_BLOCKS
     \<Longrightarrow> minifs2_get_free_block_from bm i = get_free_block_from fs i"
proof (induction bm i rule: minifs2_get_free_block_from.induct)
  case (1 bm i)
  show ?case
  proof (cases "i < int TOTAL_BLOCKS \<and> bm ! nat i \<noteq> 0")
    case True
    with "1.IH" "1.prems" show ?thesis
      by (simp add: minifs2_get_free_block_from.simps [of bm i] get_free_block_from.simps [of fs i])
  next
    case False
    with "1.prems" show ?thesis
      by (auto simp add: minifs2_get_free_block_from.simps [of bm i]
            get_free_block_from.simps [of fs i])
  qed
qed

lemma get_free_block_none:
  "get_free_block fs = - 1 \<Longrightarrow> 0 \<le> data_start (super fs) \<Longrightarrow> data_start (super fs) \<le> k
     \<Longrightarrow> k < total_blocks (super fs) \<Longrightarrow> bitmap fs ! nat k \<noteq> 0"
  unfolding get_free_block_def by (rule get_free_block_from_none)

lemma get_free_block_some:
  "get_free_block fs \<noteq> - 1 \<Longrightarrow>
     data_start (super fs) \<le> get_free_block fs \<and> get_free_block fs < total_blocks (super fs)
     \<and> bitmap fs ! nat (get_free_block fs) = 0
     \<and> (\<forall>k. data_start (super fs) \<le> k \<and> k < get_free_block fs \<longrightarrow> bitmap fs ! nat k \<noteq> 0)"
  unfolding get_free_block_def by (rule get_free_block_from_some)

lemma get_free_block_eqI:
  assumes "0 \<le> data_start (super fs)" and "data_start (super fs) \<le> b"
    and "b < total_blocks (super fs)" and "bitmap fs ! nat b = 0"
    and "\<And>k. data_start (super fs) \<le> k \<Longrightarrow> k < b \<Longrightarrow> bitmap fs ! nat k \<noteq> 0"
  shows "get_free_block fs = b"
proof -
  have ne: "get_free_block fs \<noteq> - 1"
    using get_free_block_none [of fs b] assms(1-4) by blast
  from get_free_block_some [OF ne]
  have r: "data_start (super fs) \<le> get_free_block fs" "bitmap fs ! nat (get_free_block fs) = 0"
    "\<And>k. data_start (super fs) \<le> k \<Longrightarrow> k < get_free_block fs \<Longrightarrow> bitmap fs ! nat k \<noteq> 0"
    by simp_all
  have "\<not> b < get_free_block fs" using r(3) [of b] assms(2,4) by blast
  moreover have "\<not> get_free_block fs < b" using assms(5) [of "get_free_block fs"] r(1,2) by blast
  ultimately show ?thesis by simp
qed

lemma get_free_block_noneI:
  assumes "\<And>k. data_start (super fs) \<le> k \<Longrightarrow> k < total_blocks (super fs) \<Longrightarrow> bitmap fs ! nat k \<noteq> 0"
  shows "get_free_block fs = - 1"
proof (rule ccontr)
  assume "get_free_block fs \<noteq> - 1"
  from get_free_block_some [OF this] assms [of "get_free_block fs"] show False by blast
qed

lemma format_super_96:
  "data_start (super (fs_format 96)) = 5" "total_blocks (super (fs_format 96)) = 1024"
  by (simp_all add: super_fs_format format_super_def Let_def MAX_INODES_def BLOCK_SIZE_def
        TOTAL_BLOCKS_def)

text \<open>
  Claim C7. \<^verbatim>\<open>get_free_block\<close> returns the smallest index in
  \<open>data_start..total_blocks - 1\<close> whose bitmap entry is 0, hence never the index of a used
  entry, and -1 when every entry in that range is used. It changes no state: the function
  of the model has the state as argument only. The second half is the same statement for
  \<^verbatim>\<open>get_free_block\<close> of \<^verbatim>\<open>src/minifs_2.c\<close>, whose range is \<open>0..TOTAL_BLOCKS - 1\<close>.
\<close>

theorem get_free_block_first_free:
  assumes "0 \<le> data_start (super fs)"
    and "total_blocks (super fs) \<le> int (length (bitmap fs))"
    and "length bm = TOTAL_BLOCKS"
  shows "(if \<exists>k. data_start (super fs) \<le> k \<and> k < total_blocks (super fs) \<and> bitmap fs ! nat k = 0
          then data_start (super fs) \<le> get_free_block fs
             \<and> get_free_block fs < total_blocks (super fs)
             \<and> bitmap fs ! nat (get_free_block fs) = 0
             \<and> (\<forall>k. data_start (super fs) \<le> k \<and> k < get_free_block fs \<longrightarrow> bitmap fs ! nat k \<noteq> 0)
          else get_free_block fs = - 1)
       \<and> (if \<exists>k. 0 \<le> k \<and> k < int TOTAL_BLOCKS \<and> bm ! nat k = 0
          then 0 \<le> minifs2_get_free_block bm
             \<and> minifs2_get_free_block bm < int TOTAL_BLOCKS
             \<and> bm ! nat (minifs2_get_free_block bm) = 0
             \<and> (\<forall>k. 0 \<le> k \<and> k < minifs2_get_free_block bm \<longrightarrow> bm ! nat k \<noteq> 0)
          else minifs2_get_free_block bm = - 1)"
proof -
  have tiny: "(if \<exists>k. data_start (super g) \<le> k \<and> k < total_blocks (super g) \<and> bitmap g ! nat k = 0
          then data_start (super g) \<le> get_free_block g
             \<and> get_free_block g < total_blocks (super g)
             \<and> bitmap g ! nat (get_free_block g) = 0
             \<and> (\<forall>k. data_start (super g) \<le> k \<and> k < get_free_block g \<longrightarrow> bitmap g ! nat k \<noteq> 0)
          else get_free_block g = - 1)" if ds: "0 \<le> data_start (super g)" for g
  proof (cases "get_free_block g = - 1")
    case True
    have neg: "\<not> (\<exists>k. data_start (super g) \<le> k \<and> k < total_blocks (super g) \<and> bitmap g ! nat k = 0)"
      using get_free_block_none [OF True ds] by blast
    from True show ?thesis unfolding if_not_P [OF neg] .
  next
    case False
    from get_free_block_some [OF False]
    have *: "data_start (super g) \<le> get_free_block g \<and> get_free_block g < total_blocks (super g)
     \<and> bitmap g ! nat (get_free_block g) = 0
     \<and> (\<forall>k. data_start (super g) \<le> k \<and> k < get_free_block g \<longrightarrow> bitmap g ! nat k \<noteq> 0)" .
    then have ex: "\<exists>k. data_start (super g) \<le> k \<and> k < total_blocks (super g) \<and> bitmap g ! nat k = 0"
      by blast
    from * show ?thesis unfolding if_P [OF ex] .
  qed
  define g where "g = fs\<lparr>bitmap := bm, super := (super fs)\<lparr>total_blocks := int TOTAL_BLOCKS, data_start := 0\<rparr>\<rparr>"
  have g: "bitmap g = bm" "total_blocks (super g) = int TOTAL_BLOCKS" "data_start (super g) = 0"
    by (simp_all add: g_def)
  have eq: "minifs2_get_free_block bm = get_free_block g"
    unfolding minifs2_get_free_block_def get_free_block_def g(3)
    by (rule minifs2_get_free_block_from_eq [OF g(1) g(2)])
  have "0 \<le> data_start (super g)" by (simp add: g)
  from tiny [OF this] have mini: "(if \<exists>k. 0 \<le> k \<and> k < int TOTAL_BLOCKS \<and> bm ! nat k = 0
          then 0 \<le> minifs2_get_free_block bm
             \<and> minifs2_get_free_block bm < int TOTAL_BLOCKS
             \<and> bm ! nat (minifs2_get_free_block bm) = 0
             \<and> (\<forall>k. 0 \<le> k \<and> k < minifs2_get_free_block bm \<longrightarrow> bm ! nat k \<noteq> 0)
          else minifs2_get_free_block bm = - 1)"
    unfolding g eq .
  from tiny [OF assms(1)] mini show ?thesis by (rule conjI)
qed

theorem get_free_block_first_free_witness:
  "0 \<le> data_start (super (fs_format 96))
   \<and> total_blocks (super (fs_format 96)) \<le> int (length (bitmap (fs_format 96)))
   \<and> length (replicate TOTAL_BLOCKS (0::8 word)) = TOTAL_BLOCKS
   \<and> get_free_block (fs_format 96) = 5
   \<and> minifs2_get_free_block (replicate TOTAL_BLOCKS 0) = 0"
proof -
  let ?fs = "fs_format 96" and ?bm = "replicate TOTAL_BLOCKS (0::8 word)"
  have h1: "0 \<le> data_start (super ?fs)" by (simp add: format_super_96)
  have h2: "total_blocks (super ?fs) \<le> int (length (bitmap ?fs))"
    by (simp add: format_super_96 bitmap_fs_format TOTAL_BLOCKS_def)
  have h3: "length ?bm = TOTAL_BLOCKS" by simp
  have b5: "bitmap ?fs ! nat 5 = 0" by (simp add: bitmap_fs_format TOTAL_BLOCKS_def)
  have b0: "?bm ! nat 0 = 0" by (simp add: TOTAL_BLOCKS_def)
  have ex1: "\<exists>k. data_start (super ?fs) \<le> k \<and> k < total_blocks (super ?fs) \<and> bitmap ?fs ! nat k = 0"
    using b5 by (intro exI [of _ 5]) (simp add: format_super_96)
  have ex2: "\<exists>k. 0 \<le> k \<and> k < int TOTAL_BLOCKS \<and> ?bm ! nat k = 0"
    using b0 by (intro exI [of _ 0]) (simp add: TOTAL_BLOCKS_def)
  note T = get_free_block_first_free [OF h1 h2 h3, unfolded if_P [OF ex1] if_P [OF ex2]]
  from T have lo: "5 \<le> get_free_block ?fs"
    and first: "\<forall>k. 5 \<le> k \<and> k < get_free_block ?fs \<longrightarrow> bitmap ?fs ! nat k \<noteq> 0"
    by (simp_all add: format_super_96)
  from first b5 have "\<not> 5 < get_free_block ?fs" by auto
  with lo have r1: "get_free_block ?fs = 5" by simp
  from T have lo2: "0 \<le> minifs2_get_free_block ?bm"
    and first2: "\<forall>k. 0 \<le> k \<and> k < minifs2_get_free_block ?bm \<longrightarrow> ?bm ! nat k \<noteq> 0"
    by simp_all
  from first2 b0 have "\<not> 0 < minifs2_get_free_block ?bm" by auto
  with lo2 have r2: "minifs2_get_free_block ?bm = 0" by simp
  from h1 h2 h3 r1 r2 show ?thesis by (intro conjI)
qed


section \<open>Lookup\<close>

lemma fs_find_inode_from_hit:
  "i < MAX_INODES \<Longrightarrow> name (inodes fs ! i) \<noteq> [] \<Longrightarrow> name (inodes fs ! i) = nm
     \<Longrightarrow> fs_find_inode_from fs nm i = int i"
  by (subst fs_find_inode_from.simps) auto

lemma fs_find_inode_from_miss:
  "i < MAX_INODES \<Longrightarrow> name (inodes fs ! i) = [] \<or> name (inodes fs ! i) \<noteq> nm
     \<Longrightarrow> fs_find_inode_from fs nm i = fs_find_inode_from fs nm (i + 1)"
  by (subst fs_find_inode_from.simps) auto

lemma fs_find_inode_from_end:
  "\<not> i < MAX_INODES \<Longrightarrow> fs_find_inode_from fs nm i = - 1"
  by (subst fs_find_inode_from.simps) auto

lemma find_free_inode_from_hit:
  "i < MAX_INODES \<Longrightarrow> name (inodes fs ! i) = [] \<Longrightarrow> find_free_inode_from fs i = int i"
  by (subst find_free_inode_from.simps) auto

lemma find_free_inode_from_miss:
  "i < MAX_INODES \<Longrightarrow> name (inodes fs ! i) \<noteq> []
     \<Longrightarrow> find_free_inode_from fs i = find_free_inode_from fs (i + 1)"
  by (subst find_free_inode_from.simps) auto

lemma find_free_inode_from_end:
  "\<not> i < MAX_INODES \<Longrightarrow> find_free_inode_from fs i = - 1"
  by (subst find_free_inode_from.simps) auto

lemma fs_find_inode_from_none:
  "fs_find_inode_from fs nm i = - 1 \<Longrightarrow> i \<le> k \<Longrightarrow> k < MAX_INODES
     \<Longrightarrow> name (inodes fs ! k) = [] \<or> name (inodes fs ! k) \<noteq> nm"
proof (induction fs nm i rule: fs_find_inode_from.induct)
  case (1 fs nm i)
  from "1.prems" have lt: "i < MAX_INODES" by simp
  show ?case
  proof (cases "name (inodes fs ! i) \<noteq> [] \<and> name (inodes fs ! i) = nm")
    case True
    then have "fs_find_inode_from fs nm i = int i"
      using lt by (intro fs_find_inode_from_hit) auto
    with "1.prems" show ?thesis by simp
  next
    case False
    then have "fs_find_inode_from fs nm i = fs_find_inode_from fs nm (i + 1)"
      using lt by (intro fs_find_inode_from_miss) auto
    with "1.prems" have eq: "fs_find_inode_from fs nm (i + 1) = - 1" by simp
    show ?thesis
    proof (cases "k = i")
      case True
      with False show ?thesis by blast
    next
      case ne: False
      with "1.prems" have "i + 1 \<le> k" by simp
      with "1.IH" [OF lt False eq] "1.prems" show ?thesis by simp
    qed
  qed
qed

lemma fs_find_inode_from_some:
  "fs_find_inode_from fs nm i \<noteq> - 1 \<Longrightarrow>
     \<exists>k. fs_find_inode_from fs nm i = int k \<and> i \<le> k \<and> k < MAX_INODES
       \<and> name (inodes fs ! k) = nm \<and> nm \<noteq> []
       \<and> (\<forall>k'. i \<le> k' \<and> k' < k \<longrightarrow> name (inodes fs ! k') = [] \<or> name (inodes fs ! k') \<noteq> nm)"
proof (induction fs nm i rule: fs_find_inode_from.induct)
  case (1 fs nm i)
  from "1.prems" have lt: "i < MAX_INODES"
    using fs_find_inode_from_end [of i fs nm] by auto
  show ?case
  proof (cases "name (inodes fs ! i) \<noteq> [] \<and> name (inodes fs ! i) = nm")
    case True
    then have "fs_find_inode_from fs nm i = int i"
      using lt by (intro fs_find_inode_from_hit) auto
    with lt True show ?thesis by auto
  next
    case False
    then have eq: "fs_find_inode_from fs nm i = fs_find_inode_from fs nm (i + 1)"
      using lt by (intro fs_find_inode_from_miss) auto
    from "1.IH" [OF lt False] "1.prems" eq
    obtain k where k: "fs_find_inode_from fs nm i = int k" "i + 1 \<le> k" "k < MAX_INODES"
      "name (inodes fs ! k) = nm" "nm \<noteq> []"
      "\<And>k'. i + 1 \<le> k' \<Longrightarrow> k' < k \<Longrightarrow> name (inodes fs ! k') = [] \<or> name (inodes fs ! k') \<noteq> nm"
      by auto
    have "name (inodes fs ! k') = [] \<or> name (inodes fs ! k') \<noteq> nm" if "i \<le> k'" "k' < k" for k'
    proof (cases "k' = i")
      case True
      with False show ?thesis by blast
    next
      case ne: False
      with that have "i + 1 \<le> k'" by simp
      then show ?thesis using that(2) by (rule k(6))
    qed
    with k(1-5) show ?thesis by auto
  qed
qed

lemma fs_find_inode_from_first:
  assumes "i \<le> k" and "k < MAX_INODES" and "name (inodes fs ! k) = nm" and "nm \<noteq> []"
    and "\<And>k'. i \<le> k' \<Longrightarrow> k' < k \<Longrightarrow> name (inodes fs ! k') = [] \<or> name (inodes fs ! k') \<noteq> nm"
  shows "fs_find_inode_from fs nm i = int k"
proof -
  have "fs_find_inode_from fs nm i \<noteq> - 1"
    using fs_find_inode_from_none [of fs nm i k] assms(1-4) by auto
  from fs_find_inode_from_some [OF this]
  obtain r where r: "fs_find_inode_from fs nm i = int r" "i \<le> r" "r < MAX_INODES"
      "name (inodes fs ! r) = nm"
      "\<forall>k'. i \<le> k' \<and> k' < r \<longrightarrow> name (inodes fs ! k') = [] \<or> name (inodes fs ! k') \<noteq> nm"
    by auto
  have "\<not> k < r" using r(5) assms(1,3,4) by auto
  moreover have "\<not> r < k" using assms(5) [of r] r(2,4) assms(4) by auto
  ultimately show ?thesis using r(1) by simp
qed


lemma find_free_inode_from_some:
  "find_free_inode_from fs i \<noteq> - 1 \<Longrightarrow>
     \<exists>k. find_free_inode_from fs i = int k \<and> i \<le> k \<and> k < MAX_INODES
       \<and> name (inodes fs ! k) = []
       \<and> (\<forall>k'. i \<le> k' \<and> k' < k \<longrightarrow> name (inodes fs ! k') \<noteq> [])"
proof (induction fs i rule: find_free_inode_from.induct)
  case (1 fs i)
  from "1.prems" have lt: "i < MAX_INODES"
    using find_free_inode_from_end [of i fs] by auto
  show ?case
  proof (cases "name (inodes fs ! i) = []")
    case True
    with lt have "find_free_inode_from fs i = int i"
      by (simp add: find_free_inode_from_hit)
    with lt True show ?thesis by auto
  next
    case False
    with lt have eq: "find_free_inode_from fs i = find_free_inode_from fs (i + 1)"
      by (rule find_free_inode_from_miss)
    from "1.IH" [OF lt False] "1.prems" eq
    obtain k where k: "find_free_inode_from fs i = int k" "i + 1 \<le> k" "k < MAX_INODES"
      "name (inodes fs ! k) = []"
      "\<And>k'. i + 1 \<le> k' \<Longrightarrow> k' < k \<Longrightarrow> name (inodes fs ! k') \<noteq> []"
      by auto
    have "name (inodes fs ! k') \<noteq> []" if "i \<le> k'" "k' < k" for k'
    proof (cases "k' = i")
      case True
      with False show ?thesis by blast
    next
      case ne: False
      with that have "i + 1 \<le> k'" by simp
      then show ?thesis using that(2) by (rule k(5))
    qed
    with k(1-4) show ?thesis by auto
  qed
qed


section \<open>Fields under the updates\<close>

lemma flush_inodes_fields [simp]:
  "super (flush_inodes fs) = super fs" "inodes (flush_inodes fs) = inodes fs"
  "bitmap (flush_inodes fs) = bitmap fs" "img_data (fp (flush_inodes fs)) = img_data (fp fs)"
  by (simp_all add: flush_inodes_def)

lemma flush_bitmap_fields [simp]:
  "super (flush_bitmap fs) = super fs" "inodes (flush_bitmap fs) = inodes fs"
  "bitmap (flush_bitmap fs) = bitmap fs" "img_data (fp (flush_bitmap fs)) = img_data (fp fs)"
  by (simp_all add: flush_bitmap_def)

lemma flush_super_fields [simp]:
  "super (flush_super fs) = super fs" "inodes (flush_super fs) = inodes fs"
  "bitmap (flush_super fs) = bitmap fs" "img_data (fp (flush_super fs)) = img_data (fp fs)"
  by (simp_all add: flush_super_def)

lemma fs_find_inode_from_cong:
  "(\<And>k. k < MAX_INODES \<Longrightarrow> name (inodes fs' ! k) = name (inodes fs ! k))
     \<Longrightarrow> fs_find_inode_from fs' nm i = fs_find_inode_from fs nm i"
proof (induction fs nm i rule: fs_find_inode_from.induct)
  case (1 fs nm i)
  show ?case
  proof (cases "i < MAX_INODES")
    case False
    then show ?thesis by (simp add: fs_find_inode_from_end)
  next
    case lt: True
    show ?thesis
    proof (cases "name (inodes fs ! i) \<noteq> [] \<and> name (inodes fs ! i) = nm")
      case True
      then have "fs_find_inode_from fs nm i = int i"
        using lt by (intro fs_find_inode_from_hit) auto
      moreover have "fs_find_inode_from fs' nm i = int i"
        using lt True "1.prems" [OF lt] by (intro fs_find_inode_from_hit) auto
      ultimately show ?thesis by simp
    next
      case False
      then have "fs_find_inode_from fs nm i = fs_find_inode_from fs nm (i + 1)"
        using lt by (intro fs_find_inode_from_miss) auto
      moreover have "fs_find_inode_from fs' nm i = fs_find_inode_from fs' nm (i + 1)"
        using lt False "1.prems" [OF lt] by (intro fs_find_inode_from_miss) auto
      ultimately show ?thesis using "1.IH" [OF lt False "1.prems"] by simp
    qed
  qed
qed

section \<open>Create\<close>



lemma fs_create_file_exists:
  "fs_find_inode fs nm \<noteq> - 1 \<Longrightarrow> fs_create_file fs nm now = (fs, Inl AlreadyExists)"
  by (simp add: fs_create_file_def)


lemma fs_create_file_no_slot:
  "fs_find_inode fs nm = - 1 \<Longrightarrow> find_free_inode_from fs 0 = - 1
     \<Longrightarrow> fs_create_file fs nm now = (fs, Inl NoFreeInode)"
  by (simp add: fs_create_file_def)

text \<open>The new inode of a successful create, and the state it leaves.\<close>

lemma fs_create_file_new:
  assumes "fs_find_inode fs nm = - 1" and "find_free_inode_from fs 0 = int r"
  shows "fs_create_file fs nm now =
           (flush_inodes (fs\<lparr>inodes := (inodes fs)[r := (inodes fs ! r)
               \<lparr>name := strncpy_name nm, size_bytes := 0, blocks := replicate NBLOCKS (- 1),
                created := now, modified := now\<rparr>]\<rparr>), Inr (int r))"
  using assms by (simp add: fs_create_file_def Let_def)

lemma fs_create_file_cases:
  obtains (exists) "fs_find_inode fs nm \<noteq> - 1" "fs_create_file fs nm now = (fs, Inl AlreadyExists)"
  | (full) "fs_find_inode fs nm = - 1" "fs_create_file fs nm now = (fs, Inl NoFreeInode)"
  | (new) r where "fs_find_inode fs nm = - 1" "r < MAX_INODES" "name (inodes fs ! r) = []"
      "find_free_inode_from fs 0 = int r"
      "fs_create_file fs nm now =
           (flush_inodes (fs\<lparr>inodes := (inodes fs)[r := (inodes fs ! r)
               \<lparr>name := strncpy_name nm, size_bytes := 0, blocks := replicate NBLOCKS (- 1),
                created := now, modified := now\<rparr>]\<rparr>), Inr (int r))"
proof (cases "fs_find_inode fs nm = - 1")
  case False
  then show ?thesis using fs_create_file_exists exists by blast
next
  case nf: True
  show ?thesis
  proof (cases "find_free_inode_from fs 0 = - 1")
    case True
    with nf show ?thesis using fs_create_file_no_slot full by blast
  next
    case False
    from find_free_inode_from_some [OF False]
    obtain r where r: "find_free_inode_from fs 0 = int r" "r < MAX_INODES" "name (inodes fs ! r) = []"
      by auto
    from fs_create_file_new [OF nf r(1)] nf r show ?thesis using new by blast
  qed
qed

lemma strncpy_name_short: "length nm < MAX_FILENAME \<Longrightarrow> strncpy_name nm = nm"
  by (simp add: strncpy_name_def)

lemma fs_create_file_lookup:
  assumes len: "length (inodes fs) = MAX_INODES"
    and nf: "fs_find_inode fs nm = - 1"
    and free: "find_free_inode_from fs 0 \<noteq> - 1"
    and nm: "nm \<noteq> []" "length nm < MAX_FILENAME"
  shows "fs_find_inode (fst (fs_create_file fs nm now)) nm = find_free_inode_from fs 0
       \<and> snd (fs_create_file fs nm now) = Inr (find_free_inode_from fs 0)
       \<and> size_bytes (inodes (fst (fs_create_file fs nm now)) ! nat (find_free_inode_from fs 0)) = 0
       \<and> blocks (inodes (fst (fs_create_file fs nm now)) ! nat (find_free_inode_from fs 0))
            = replicate NBLOCKS (- 1)"
proof -
  from find_free_inode_from_some [OF free]
  obtain r where r: "find_free_inode_from fs 0 = int r" "r < MAX_INODES" by auto
  let ?ino = "(inodes fs ! r)\<lparr>name := strncpy_name nm, size_bytes := 0,
                blocks := replicate NBLOCKS (- 1), created := now, modified := now\<rparr>"
  let ?fs' = "flush_inodes (fs\<lparr>inodes := (inodes fs)[r := ?ino]\<rparr>)"
  have cr: "fs_create_file fs nm now = (?fs', Inr (int r))"
    by (rule fs_create_file_new [OF nf r(1)])
  have at_r: "inodes ?fs' ! r = ?ino" using r(2) len by simp
  have other: "inodes ?fs' ! k = inodes fs ! k" if "k \<noteq> r" for k using that by simp
  have before: "name (inodes ?fs' ! k) = [] \<or> name (inodes ?fs' ! k) \<noteq> nm"
    if "0 \<le> k" "k < r" for k
  proof -
    from that r(2) have "k < MAX_INODES" "k \<noteq> r" by simp_all
    with fs_find_inode_from_none [OF nf [unfolded fs_find_inode_def], of k] other [of k]
    show ?thesis by simp
  qed
  have "fs_find_inode_from ?fs' nm 0 = int r"
  proof (rule fs_find_inode_from_first)
    show "name (inodes ?fs' ! r) = nm" unfolding at_r by (simp add: strncpy_name_short nm)
  qed (use r(2) nm before in auto)
  then show ?thesis
    unfolding cr r(1) fs_find_inode_def using at_r by simp
qed


lemma set_block_fields [simp]:
  "super (set_block fs b v) = super fs" "inodes (set_block fs b v) = inodes fs"
  "fp (set_block fs b v) = fp fs"
  by (simp_all add: set_block_def)

lemma bitmap_set_block:
  "0 \<le> b \<Longrightarrow> b < int TOTAL_BLOCKS
     \<Longrightarrow> bitmap (set_block fs b v) = (bitmap fs)[nat b := word_of_int v]"
  by (simp add: set_block_def)

lemma length_bitmap_set_block [simp]: "length (bitmap (set_block fs b v)) = length (bitmap fs)"
  by (simp add: set_block_def)

lemma set_inode_block_fields [simp]:
  "super (set_inode_block fs ino i b) = super fs" "bitmap (set_inode_block fs ino i b) = bitmap fs"
  "fp (set_inode_block fs ino i b) = fp fs"
  "length (inodes (set_inode_block fs ino i b)) = length (inodes fs)"
  by (simp_all add: set_inode_block_def)

lemma inodes_set_inode_block:
  "inodes (set_inode_block fs ino i b)
     = (inodes fs)[ino := (inodes fs ! ino)\<lparr>blocks := (blocks (inodes fs ! ino))[i := b]\<rparr>]"
  by (simp add: set_inode_block_def)


lemma fs_find_inode_no_names:
  "(\<And>k. k < MAX_INODES \<Longrightarrow> name (inodes fs ! k) = []) \<Longrightarrow> fs_find_inode fs nm = - 1"
  using fs_find_inode_from_some [of fs nm 0] unfolding fs_find_inode_def by force

lemma name_fs_format: "k < MAX_INODES \<Longrightarrow> name (inodes (fs_format isz) ! k) = []"
  by (simp add: inodes_fs_format zero_inode_def)

lemma fs_find_inode_fs_format: "fs_find_inode (fs_format isz) nm = - 1"
  by (rule fs_find_inode_no_names) (rule name_fs_format)

lemma find_free_inode_fs_format: "find_free_inode_from (fs_format isz) 0 = 0"
  using find_free_inode_from_hit [of 0 "fs_format isz"] name_fs_format [of 0 isz]
  by (simp add: MAX_INODES_def)

lemma length_inodes_fs_format: "length (inodes (fs_format isz)) = MAX_INODES"
  by (simp add: inodes_fs_format)


lemma NBLOCKS_eq: "NBLOCKS = 10"
  by (simp add: NBLOCKS_def MAX_FILE_SIZE_def BLOCK_SIZE_def)







section \<open>One allocation\<close>

lemma nth_list_update_field:
  "(\<And>x. f (g x) = f x) \<Longrightarrow> f (xs[i := g (xs ! i)] ! k) = f (xs ! k)"
  by (cases "i < length xs") (auto simp: nth_list_update list_update_beyond)

lemma dec_free_blocks_fields [simp]:
  "inodes (dec_free_blocks fs) = inodes fs" "bitmap (dec_free_blocks fs) = bitmap fs"
  "fp (dec_free_blocks fs) = fp fs"
  "super (dec_free_blocks fs) = (super fs)\<lparr>free_blocks := free_blocks (super fs) - 1\<rparr>"
  by (simp_all add: dec_free_blocks_def)

lemma alloc_at_super:
  "super (alloc_at fs ino i b) = (super fs)\<lparr>free_blocks := free_blocks (super fs) - 1\<rparr>"
  by (simp add: alloc_at_def)

lemma alloc_at_inodes:
  "inodes (alloc_at fs ino i b)
     = (inodes fs)[ino := (inodes fs ! ino)\<lparr>blocks := (blocks (inodes fs ! ino))[i := b]\<rparr>]"
  by (simp add: alloc_at_def inodes_set_inode_block)

lemma alloc_at_bitmap:
  "0 \<le> b \<Longrightarrow> b < int TOTAL_BLOCKS \<Longrightarrow> bitmap (alloc_at fs ino i b) = (bitmap fs)[nat b := 1]"
  by (simp add: alloc_at_def bitmap_set_block)

lemma alloc_at_img_data: "img_data (fp (alloc_at fs ino i b)) = img_data (fp fs)"
  by (simp add: alloc_at_def)

lemma alloc_at_layout [simp]:
  "data_start (super (alloc_at fs ino i b)) = data_start (super fs)"
  "total_blocks (super (alloc_at fs ino i b)) = total_blocks (super fs)"
  "free_blocks (super (alloc_at fs ino i b)) = free_blocks (super fs) - 1"
  by (simp_all add: alloc_at_super)

lemma alloc_at_lengths [simp]:
  "length (inodes (alloc_at fs ino i b)) = length (inodes fs)"
  "length (bitmap (alloc_at fs ino i b)) = length (bitmap fs)"
  by (simp_all add: alloc_at_inodes alloc_at_def)

lemma alloc_at_length_blocks [simp]:
  "length (blocks (inodes (alloc_at fs ino i b) ! k)) = length (blocks (inodes fs ! k))"
  unfolding alloc_at_inodes
  by (rule nth_list_update_field [where f = "\<lambda>x. length (blocks x)"
        and g = "\<lambda>x. x\<lparr>blocks := (blocks x)[i := b]\<rparr>"]) simp

lemma alloc_at_inode_fields [simp]:
  "name (inodes (alloc_at fs ino i b) ! k) = name (inodes fs ! k)"
  "size_bytes (inodes (alloc_at fs ino i b) ! k) = size_bytes (inodes fs ! k)"
  "created (inodes (alloc_at fs ino i b) ! k) = created (inodes fs ! k)"
  "modified (inodes (alloc_at fs ino i b) ! k) = modified (inodes fs ! k)"
  unfolding alloc_at_inodes
  by (rule nth_list_update_field [where g = "\<lambda>x. x\<lparr>blocks := (blocks x)[i := b]\<rparr>"], simp)+

lemma used_slot_alloc_at [simp]: "used_slot (alloc_at fs ino i b) k = used_slot fs k"
  by (simp add: used_slot_def)

lemma block_at_alloc_at:
  "ino < length (inodes fs) \<Longrightarrow> i < length (blocks (inodes fs ! ino))
     \<Longrightarrow> block_at (alloc_at fs ino i b) k j = (if k = ino \<and> j = i then b else block_at fs k j)"
  by (simp add: block_at_def alloc_at_inodes nth_list_update)

lemma fs_shapeD:
  assumes "fs_shape fs"
  shows "length (inodes fs) = MAX_INODES" "length (bitmap fs) = TOTAL_BLOCKS"
    "0 \<le> data_start (super fs)" "total_blocks (super fs) \<le> int TOTAL_BLOCKS"
    "\<And>i. i < MAX_INODES \<Longrightarrow> length (blocks (inodes fs ! i)) = NBLOCKS"
  using assms by (simp_all add: fs_shape_def)

lemma fs_shape_alloc_at: "fs_shape fs \<Longrightarrow> fs_shape (alloc_at fs ino i b)"
  by (simp add: fs_shape_def)

text \<open>What \<^verbatim>\<open>get_free_block\<close> returns in a well-shaped state when it is not -1.\<close>

lemma get_free_block_range:
  assumes "fs_shape fs" and "get_free_block fs \<noteq> - 1"
  shows "0 \<le> get_free_block fs" "get_free_block fs < int TOTAL_BLOCKS"
    "data_start (super fs) \<le> get_free_block fs" "get_free_block fs < total_blocks (super fs)"
    "bitmap fs ! nat (get_free_block fs) = 0" "nat (get_free_block fs) < length (bitmap fs)"
  using get_free_block_some [OF assms(2)] fs_shapeD [OF assms(1)] by auto

lemma block_at_alloc_at_shape:
  "fs_shape fs \<Longrightarrow> ino < MAX_INODES \<Longrightarrow> i < NBLOCKS
     \<Longrightarrow> block_at (alloc_at fs ino i b) k j = (if k = ino \<and> j = i then b else block_at fs k j)"
  by (rule block_at_alloc_at) (simp_all add: fs_shapeD)

lemma bitmap_alloc_at_shape:
  assumes "fs_shape fs" and "get_free_block fs \<noteq> - 1"
  shows "bitmap (alloc_at fs ino i (get_free_block fs)) ! c
           = (if c = nat (get_free_block fs) then 1 else bitmap fs ! c)"
  using get_free_block_range [OF assms]
  by (simp add: alloc_at_bitmap nth_list_update)

section \<open>The allocation loop\<close>

lemma alloc_blocks_done: "\<not> i < n \<Longrightarrow> alloc_blocks fs ino i n = (fs, True)"
  by (subst alloc_blocks.simps) simp

lemma alloc_blocks_skip:
  "i < n \<Longrightarrow> block_at fs ino i \<noteq> - 1 \<Longrightarrow> alloc_blocks fs ino i n = alloc_blocks fs ino (i + 1) n"
  by (subst alloc_blocks.simps) (simp add: block_at_def)

lemma alloc_blocks_fail:
  "i < n \<Longrightarrow> block_at fs ino i = - 1 \<Longrightarrow> get_free_block fs = - 1
     \<Longrightarrow> alloc_blocks fs ino i n = (fs, False)"
  by (subst alloc_blocks.simps) (simp add: block_at_def)

lemma alloc_blocks_alloc:
  "i < n \<Longrightarrow> block_at fs ino i = - 1 \<Longrightarrow> get_free_block fs \<noteq> - 1
     \<Longrightarrow> alloc_blocks fs ino i n
           = alloc_blocks (alloc_at fs ino i (get_free_block fs)) ino (i + 1) n"
  by (subst alloc_blocks.simps) (simp add: block_at_def Let_def)

text \<open>
  A loop invariant \<open>P\<close>, over the state and the position, holds where the loop stops:
  at \<open>n\<close> when it ran to the end, at the position of the failed allocation otherwise.
\<close>

lemma alloc_blocks_rule:
  assumes "P fs i" and "i \<le> n"
    and skip: "\<And>fs i. i < n \<Longrightarrow> P fs i \<Longrightarrow> block_at fs ino i \<noteq> - 1 \<Longrightarrow> P fs (i + 1)"
    and alloc: "\<And>fs i. i < n \<Longrightarrow> P fs i \<Longrightarrow> block_at fs ino i = - 1
                  \<Longrightarrow> get_free_block fs \<noteq> - 1
                  \<Longrightarrow> P (alloc_at fs ino i (get_free_block fs)) (i + 1)"
  shows "\<exists>i'. i \<le> i' \<and> i' \<le> n \<and> P (fst (alloc_blocks fs ino i n)) i'
           \<and> (if snd (alloc_blocks fs ino i n) then i' = n
               else i' < n \<and> block_at (fst (alloc_blocks fs ino i n)) ino i' = - 1
                    \<and> get_free_block (fst (alloc_blocks fs ino i n)) = - 1)"
  using assms(1,2)
proof (induction "n - i" arbitrary: fs i)
  case 0
  then have "i = n" by simp
  with "0.prems" show ?case by (auto simp: alloc_blocks_done)
next
  case (Suc d)
  then have lt: "i < n" and d: "d = n - (i + 1)" and le: "i + 1 \<le> n" by simp_all
  show ?case
  proof (cases "block_at fs ino i = - 1")
    case False
    have eq: "alloc_blocks fs ino i n = alloc_blocks fs ino (i + 1) n"
      using lt False by (rule alloc_blocks_skip)
    have "P fs (i + 1)" using lt Suc.prems(1) False by (rule skip)
    from Suc.hyps(1) [OF d this le]
    obtain i' where "i + 1 \<le> i'" "i' \<le> n" "P (fst (alloc_blocks fs ino (i + 1) n)) i'"
      "if snd (alloc_blocks fs ino (i + 1) n) then i' = n
             else i' < n \<and> block_at (fst (alloc_blocks fs ino (i + 1) n)) ino i' = - 1
                  \<and> get_free_block (fst (alloc_blocks fs ino (i + 1) n)) = - 1"
      by blast
    then show ?thesis unfolding eq by (intro exI [of _ i']) simp
  next
    case sentinel: True
    show ?thesis
    proof (cases "get_free_block fs = - 1")
      case True
      have "alloc_blocks fs ino i n = (fs, False)"
        using lt sentinel True by (rule alloc_blocks_fail)
      with lt sentinel True Suc.prems show ?thesis by (intro exI [of _ i]) simp
    next
      case False
      let ?fs = "alloc_at fs ino i (get_free_block fs)"
      have eq: "alloc_blocks fs ino i n = alloc_blocks ?fs ino (i + 1) n"
        using lt sentinel False by (rule alloc_blocks_alloc)
      have "P ?fs (i + 1)" using lt Suc.prems(1) sentinel False by (rule alloc)
      from Suc.hyps(1) [OF d this le]
      obtain i' where "i + 1 \<le> i'" "i' \<le> n" "P (fst (alloc_blocks ?fs ino (i + 1) n)) i'"
        "if snd (alloc_blocks ?fs ino (i + 1) n) then i' = n
             else i' < n \<and> block_at (fst (alloc_blocks ?fs ino (i + 1) n)) ino i' = - 1
                  \<and> get_free_block (fst (alloc_blocks ?fs ino (i + 1) n)) = - 1"
        by blast
      then show ?thesis unfolding eq by (intro exI [of _ i']) simp
    qed
  qed
qed


lemma alloc_effect_refl: "fs_shape fs \<Longrightarrow> alloc_effect fs ino i fs i"
  by (auto simp add: alloc_effect_def)

lemma alloc_effect_skip:
  assumes P: "alloc_effect fs ino i g i'" and b: "block_at g ino i' \<noteq> - 1"
  shows "alloc_effect fs ino i g (i' + 1)"
proof -
  from P have le: "i \<le> i'" by (simp add: alloc_effect_def)
  from P have same: "block_at g ino i' = block_at fs ino i'" by (simp add: alloc_effect_def)
  with b have old: "block_at fs ino i' \<noteq> - 1" by simp
  have 1: "block_at g k j = block_at fs k j"
    if "k \<noteq> ino \<or> j < i \<or> i' + 1 \<le> j \<or> block_at fs ino j \<noteq> - 1" for k j
    using that P by (auto simp: alloc_effect_def)
  have 2: "block_at g ino j \<noteq> - 1" if "i \<le> j" "j < i' + 1" for j
    using that P b by (cases "j = i'") (auto simp: alloc_effect_def)
  have 3: "filter (\<lambda>j. block_at fs ino j = - 1) [i..<i' + 1]
             = filter (\<lambda>j. block_at fs ino j = - 1) [i..<i']"
    using le old by simp
  have 4: "data_start (super fs) \<le> block_at g ino j \<and> block_at g ino j < total_blocks (super fs)
          \<and> bitmap fs ! nat (block_at g ino j) = 0 \<and> bitmap g ! nat (block_at g ino j) = 1"
    if "i \<le> j" "j < i' + 1" "block_at fs ino j = - 1" for j
  proof -
    from that old have "j < i'" by (cases "j = i'") auto
    with that P show ?thesis by (simp add: alloc_effect_def)
  qed
  have 5: "block_at g ino j \<noteq> block_at g ino j'"
    if "i \<le> j" "j < j'" "j' < i' + 1" "block_at fs ino j = - 1" "block_at fs ino j' = - 1" for j j'
  proof -
    from that old have "j' < i'" by (cases "j' = i'") auto
    with that P show ?thesis by (simp add: alloc_effect_def)
  qed
  from P have rest: "fs_shape g" "data_start (super g) = data_start (super fs)"
    "total_blocks (super g) = total_blocks (super fs)" "img_data (fp g) = img_data (fp fs)"
    "\<forall>k. name (inodes g ! k) = name (inodes fs ! k)
          \<and> size_bytes (inodes g ! k) = size_bytes (inodes fs ! k)"
    "free_blocks (super g)
       = free_blocks (super fs) - int (length (filter (\<lambda>j. block_at fs ino j = - 1) [i..<i']))"
    "\<forall>c. bitmap g ! c = bitmap fs ! c \<or> bitmap fs ! c = 0 \<and> bitmap g ! c = 1"
    by (simp_all add: alloc_effect_def)
  show ?thesis
    unfolding alloc_effect_def 3 using le 1 2 4 5 rest by (intro conjI allI impI) simp_all
qed

lemma alloc_effect_alloc:
  assumes P: "alloc_effect fs ino i g i'" and b: "block_at g ino i' = - 1"
    and free: "get_free_block g \<noteq> - 1" and ino: "ino < MAX_INODES" and i': "i' < NBLOCKS"
  shows "alloc_effect fs ino i (alloc_at g ino i' (get_free_block g)) (i' + 1)"
proof -
  let ?b = "get_free_block g"
  let ?g = "alloc_at g ino i' ?b"
  from P have le: "i \<le> i'" and sh: "fs_shape g"
    and ds: "data_start (super g) = data_start (super fs)"
    and tb: "total_blocks (super g) = total_blocks (super fs)"
    and bm: "\<And>c. bitmap g ! c = bitmap fs ! c \<or> bitmap fs ! c = 0 \<and> bitmap g ! c = 1"
    by (simp_all add: alloc_effect_def)
  from P have same: "block_at g ino i' = block_at fs ino i'" by (simp add: alloc_effect_def)
  with b have old: "block_at fs ino i' = - 1" by simp
  note ba = block_at_alloc_at_shape [OF sh ino i']
  note rng = get_free_block_range [OF sh free]
  note bmg = bitmap_alloc_at_shape [OF sh free, of ino i']
  have b0: "bitmap fs ! nat ?b = 0" using bm [of "nat ?b"] rng(5) by auto
  have 1: "block_at ?g k j = block_at fs k j"
    if "k \<noteq> ino \<or> j < i \<or> i' + 1 \<le> j \<or> block_at fs ino j \<noteq> - 1" for k j
  proof -
    from that old le have "\<not> (k = ino \<and> j = i')" by auto
    then have "block_at ?g k j = block_at g k j" by (auto simp: ba)
    moreover have "block_at g k j = block_at fs k j"
      using that P by (auto simp: alloc_effect_def)
    ultimately show ?thesis by simp
  qed
  have 2: "block_at ?g ino j \<noteq> - 1" if "i \<le> j" "j < i' + 1" for j
    using that P free by (cases "j = i'") (auto simp: ba alloc_effect_def)
  have 3: "filter (\<lambda>j. block_at fs ino j = - 1) [i..<i' + 1]
             = filter (\<lambda>j. block_at fs ino j = - 1) [i..<i'] @ [i']"
    using le old by simp
  have 4: "data_start (super fs) \<le> block_at ?g ino j \<and> block_at ?g ino j < total_blocks (super fs)
          \<and> bitmap fs ! nat (block_at ?g ino j) = 0 \<and> bitmap ?g ! nat (block_at ?g ino j) = 1"
    if "i \<le> j" "j < i' + 1" "block_at fs ino j = - 1" for j
  proof (cases "j = i'")
    case True
    then have "block_at ?g ino j = ?b" by (simp add: ba)
    then show ?thesis using rng(3,4) b0 ds tb by (simp add: bmg)
  next
    case False
    with that have "j < i'" by simp
    with that P have *: "data_start (super fs) \<le> block_at g ino j"
      "block_at g ino j < total_blocks (super fs)"
      "bitmap fs ! nat (block_at g ino j) = 0" "bitmap g ! nat (block_at g ino j) = 1"
      by (simp_all add: alloc_effect_def)
    from False have "block_at ?g ino j = block_at g ino j" by (simp add: ba)
    with * show ?thesis by (simp add: bmg)
  qed
  have 5: "block_at ?g ino j \<noteq> block_at ?g ino j'"
    if "i \<le> j" "j < j'" "j' < i' + 1" "block_at fs ino j = - 1" "block_at fs ino j' = - 1" for j j'
  proof (cases "j' = i'")
    case True
    with that have "j < i'" by simp
    with that P have *: "bitmap g ! nat (block_at g ino j) = 1" "data_start (super fs) \<le> block_at g ino j"
      by (simp_all add: alloc_effect_def)
    from True that have "block_at ?g ino j' = ?b" "block_at ?g ino j = block_at g ino j"
      by (simp_all add: ba)
    moreover have "block_at g ino j \<noteq> ?b" using * rng(5) by auto
    ultimately show ?thesis by simp
  next
    case False
    with that have "j' < i'" "j < i'" by simp_all
    with that P have "block_at g ino j \<noteq> block_at g ino j'" by (simp add: alloc_effect_def)
    moreover from \<open>j' < i'\<close> \<open>j < i'\<close> have "block_at ?g ino j' = block_at g ino j'"
      "block_at ?g ino j = block_at g ino j" by (simp_all add: ba)
    ultimately show ?thesis by simp
  qed
  have 6: "bitmap ?g ! c = bitmap fs ! c \<or> bitmap fs ! c = 0 \<and> bitmap ?g ! c = 1" for c
    using bm [of c] b0 by (auto simp: bmg)
  from P have rest: "img_data (fp g) = img_data (fp fs)"
    "\<forall>k. name (inodes g ! k) = name (inodes fs ! k)
          \<and> size_bytes (inodes g ! k) = size_bytes (inodes fs ! k)"
    "free_blocks (super g)
       = free_blocks (super fs) - int (length (filter (\<lambda>j. block_at fs ino j = - 1) [i..<i']))"
    by (simp_all add: alloc_effect_def)
  show ?thesis
    unfolding alloc_effect_def 3
    using le 1 2 4 5 6 rest ds tb fs_shape_alloc_at [OF sh]
    by (intro conjI allI impI) (simp_all add: alloc_at_img_data)
qed

text \<open>The effect of the whole loop, and where it stopped.\<close>

lemma alloc_blocks_effect:
  assumes shape: "fs_shape fs" and ino: "ino < MAX_INODES" and n: "n \<le> NBLOCKS" and i: "i \<le> n"
  shows "\<exists>i'. i' \<le> n \<and> alloc_effect fs ino i (fst (alloc_blocks fs ino i n)) i'
           \<and> (if snd (alloc_blocks fs ino i n) then i' = n
               else i' < n \<and> block_at (fst (alloc_blocks fs ino i n)) ino i' = - 1
                    \<and> get_free_block (fst (alloc_blocks fs ino i n)) = - 1)"
proof -
  have "\<exists>i'. i \<le> i' \<and> i' \<le> n \<and> alloc_effect fs ino i (fst (alloc_blocks fs ino i n)) i'
           \<and> (if snd (alloc_blocks fs ino i n) then i' = n
               else i' < n \<and> block_at (fst (alloc_blocks fs ino i n)) ino i' = - 1
                    \<and> get_free_block (fst (alloc_blocks fs ino i n)) = - 1)"
  proof (rule alloc_blocks_rule [where P = "alloc_effect fs ino i"])
    show "alloc_effect fs ino i fs i" using shape by (rule alloc_effect_refl)
    show "i \<le> n" by (rule i)
  next
    fix g i'
    assume "alloc_effect fs ino i g i'" "block_at g ino i' \<noteq> - 1"
    then show "alloc_effect fs ino i g (i' + 1)" by (rule alloc_effect_skip)
  next
    fix g i'
    assume "i' < n" "alloc_effect fs ino i g i'" "block_at g ino i' = - 1" "get_free_block g \<noteq> - 1"
    with n ino show "alloc_effect fs ino i (alloc_at g ino i' (get_free_block g)) (i' + 1)"
      by (intro alloc_effect_alloc) simp_all
  qed
  then show ?thesis by blast
qed


section \<open>Consequences of the allocation effect\<close>

lemma alloc_effect_used_slot:
  "alloc_effect fs ino i fs' i' \<Longrightarrow> used_slot fs' k = used_slot fs k"
  by (simp add: alloc_effect_def used_slot_def)

lemma alloc_effect_marked:
  assumes "alloc_effect fs ino i fs' i'" and "bitmap fs ! c = 1"
  shows "bitmap fs' ! c = 1"
proof -
  from assms(1) have "bitmap fs' ! c = bitmap fs ! c \<or> bitmap fs ! c = 0 \<and> bitmap fs' ! c = 1"
    by (simp add: alloc_effect_def)
  with assms(2) show ?thesis by auto
qed

lemma alloc_effectD:
  assumes "alloc_effect fs ino i fs' i'"
  shows "i \<le> i'" and "fs_shape fs'"
    and "data_start (super fs') = data_start (super fs)"
    and "total_blocks (super fs') = total_blocks (super fs)"
    and "img_data (fp fs') = img_data (fp fs)"
    and "\<And>k. name (inodes fs' ! k) = name (inodes fs ! k)"
    and "\<And>k. size_bytes (inodes fs' ! k) = size_bytes (inodes fs ! k)"
    and "\<And>k j. k \<noteq> ino \<or> j < i \<or> i' \<le> j \<or> block_at fs ino j \<noteq> - 1
           \<Longrightarrow> block_at fs' k j = block_at fs k j"
    and "\<And>j. i \<le> j \<Longrightarrow> j < i' \<Longrightarrow> block_at fs' ino j \<noteq> - 1"
    and "free_blocks (super fs')
       = free_blocks (super fs) - int (length (filter (\<lambda>j. block_at fs ino j = - 1) [i..<i']))"
    and "\<And>j. i \<le> j \<Longrightarrow> j < i' \<Longrightarrow> block_at fs ino j = - 1 \<Longrightarrow>
          data_start (super fs) \<le> block_at fs' ino j \<and>
          block_at fs' ino j < total_blocks (super fs) \<and>
          bitmap fs ! nat (block_at fs' ino j) = 0 \<and>
          bitmap fs' ! nat (block_at fs' ino j) = 1"
    and "\<And>j j'. i \<le> j \<Longrightarrow> j < j' \<Longrightarrow> j' < i' \<Longrightarrow> block_at fs ino j = - 1
          \<Longrightarrow> block_at fs ino j' = - 1 \<Longrightarrow> block_at fs' ino j \<noteq> block_at fs' ino j'"
    and "\<And>c. bitmap fs' ! c = bitmap fs ! c \<or> bitmap fs ! c = 0 \<and> bitmap fs' ! c = 1"
  using assms unfolding alloc_effect_def by blast+

lemma alloc_effect_changed:
  assumes "alloc_effect fs ino i fs' i'" and "block_at fs' k j \<noteq> block_at fs k j"
  shows "k = ino \<and> i \<le> j \<and> j < i' \<and> block_at fs ino j = - 1"
proof -
  have "\<not> (k \<noteq> ino \<or> j < i \<or> i' \<le> j \<or> block_at fs ino j \<noteq> - 1)"
    using alloc_effectD(8) [OF assms(1), of k j] assms(2) by blast
  then show ?thesis by auto
qed

lemma blocks_ownedD:
  "blocks_owned fs \<Longrightarrow> k < MAX_INODES \<Longrightarrow> j < NBLOCKS \<Longrightarrow> used_slot fs k
     \<Longrightarrow> block_at fs k j \<noteq> - 1
     \<Longrightarrow> data_start (super fs) \<le> block_at fs k j \<and> block_at fs k j < total_blocks (super fs)
         \<and> bitmap fs ! nat (block_at fs k j) = 1"
  unfolding blocks_owned_def by blast

lemma blocks_ownedI:
  "(\<And>k j. k < MAX_INODES \<Longrightarrow> j < NBLOCKS \<Longrightarrow> used_slot fs k \<Longrightarrow> block_at fs k j \<noteq> - 1
      \<Longrightarrow> data_start (super fs) \<le> block_at fs k j \<and> block_at fs k j < total_blocks (super fs)
         \<and> bitmap fs ! nat (block_at fs k j) = 1)
   \<Longrightarrow> blocks_owned fs"
  unfolding blocks_owned_def by blast

lemma blocks_unsharedD:
  "blocks_unshared fs \<Longrightarrow> k < MAX_INODES \<Longrightarrow> j < NBLOCKS \<Longrightarrow> k' < MAX_INODES \<Longrightarrow> j' < NBLOCKS
     \<Longrightarrow> used_slot fs k \<Longrightarrow> used_slot fs k' \<Longrightarrow> block_at fs k j \<noteq> - 1
     \<Longrightarrow> block_at fs k j = block_at fs k' j' \<Longrightarrow> k = k' \<and> j = j'"
  unfolding blocks_unshared_def by blast

lemma blocks_unsharedI:
  "(\<And>k j k' j'. k < MAX_INODES \<Longrightarrow> j < NBLOCKS \<Longrightarrow> k' < MAX_INODES \<Longrightarrow> j' < NBLOCKS
     \<Longrightarrow> used_slot fs k \<Longrightarrow> used_slot fs k' \<Longrightarrow> block_at fs k j \<noteq> - 1
     \<Longrightarrow> block_at fs k j = block_at fs k' j' \<Longrightarrow> k = k' \<and> j = j')
   \<Longrightarrow> blocks_unshared fs"
  unfolding blocks_unshared_def by blast

lemma fs_invD:
  assumes "fs_inv fs"
  shows "fs_shape fs" "blocks_owned fs" "blocks_unshared fs"
  using assms by (simp_all add: fs_inv_def)

lemma alloc_effect_inv:
  assumes eff: "alloc_effect fs ino i fs' i'" and inv: "fs_inv fs"
  shows "fs_inv fs'"
proof -
  note own = blocks_ownedD [OF fs_invD(2) [OF inv]]
  note uns = blocks_unsharedD [OF fs_invD(3) [OF inv]]
  note D = alloc_effectD [OF eff]
  note us = alloc_effect_used_slot [OF eff]
  text \<open>An entry of \<open>fs'\<close> is an old entry, or a block that was free.\<close>
  have old: "bitmap fs ! nat (block_at fs' k j) = 1" "bitmap fs' ! nat (block_at fs' k j) = 1"
             "data_start (super fs) \<le> block_at fs' k j"
             "block_at fs' k j < total_blocks (super fs)"
    if "k < MAX_INODES" "j < NBLOCKS" "used_slot fs k" "block_at fs' k j \<noteq> - 1"
      "block_at fs' k j = block_at fs k j" for k j
    using own [of k j] that alloc_effect_marked [OF eff, of "nat (block_at fs k j)"] by simp_all
  have new: "k = ino" "i \<le> j" "j < i'" "block_at fs ino j = - 1"
             "bitmap fs ! nat (block_at fs' k j) = 0" "bitmap fs' ! nat (block_at fs' k j) = 1"
             "data_start (super fs) \<le> block_at fs' k j"
             "block_at fs' k j < total_blocks (super fs)"
    if "block_at fs' k j \<noteq> block_at fs k j" for k j
  proof -
    from alloc_effect_changed [OF eff that]
    show *: "k = ino" "i \<le> j" "j < i'" "block_at fs ino j = - 1" by simp_all
    from D(11) [OF *(2,3,4)] *(1)
    show "bitmap fs ! nat (block_at fs' k j) = 0" "bitmap fs' ! nat (block_at fs' k j) = 1"
             "data_start (super fs) \<le> block_at fs' k j"
             "block_at fs' k j < total_blocks (super fs)" by simp_all
  qed
  have "blocks_owned fs'"
  proof (rule blocks_ownedI)
    fix k j
    assume a: "k < MAX_INODES" "j < NBLOCKS" "used_slot fs' k" "block_at fs' k j \<noteq> - 1"
    show "data_start (super fs') \<le> block_at fs' k j \<and> block_at fs' k j < total_blocks (super fs')
         \<and> bitmap fs' ! nat (block_at fs' k j) = 1"
    proof (cases "block_at fs' k j = block_at fs k j")
      case True
      from old [OF a(1,2) a(3) [unfolded us] a(4) True] show ?thesis by (simp add: D(3,4))
    next
      case False
      from new [OF False] show ?thesis by (simp add: D(3,4))
    qed
  qed
  moreover have "blocks_unshared fs'"
  proof (rule blocks_unsharedI)
    fix k j k' j'
    assume kj: "k < MAX_INODES" "j < NBLOCKS" and kj': "k' < MAX_INODES" "j' < NBLOCKS"
      and u: "used_slot fs' k" and u': "used_slot fs' k'"
      and ne: "block_at fs' k j \<noteq> - 1" and eq: "block_at fs' k j = block_at fs' k' j'"
    from ne eq have ne': "block_at fs' k' j' \<noteq> - 1" by simp
    from u u' have v: "used_slot fs k" and v': "used_slot fs k'" by (simp_all add: us)
    show "k = k' \<and> j = j'"
    proof (cases "block_at fs' k j = block_at fs k j")
      case True
      note o = old [OF kj v ne True]
      show ?thesis
      proof (cases "block_at fs' k' j' = block_at fs k' j'")
        case t': True
        from ne True have "block_at fs k j \<noteq> - 1" by simp
        moreover from True t' eq have "block_at fs k j = block_at fs k' j'" by simp
        ultimately show ?thesis using uns [OF kj kj' v v'] by blast
      next
        case False
        from new(5) [OF False] o(1) eq show ?thesis by simp
      qed
    next
      case False
      note n = new [OF False]
      show ?thesis
      proof (cases "block_at fs' k' j' = block_at fs k' j'")
        case True
        from old(1) [OF kj' v' ne' True] n(5) eq show ?thesis by simp
      next
        case f': False
        note n' = new [OF f']
        have "j = j'"
        proof (rule ccontr)
          assume "j \<noteq> j'"
          then consider "j < j'" | "j' < j" by linarith
          then show False
          proof cases
            case 1
            from D(12) [of j j'] 1 n(1-4) n'(1-4) eq show False by simp
          next
            case 2
            from D(12) [of j' j] 2 n(1-4) n'(1-4) eq show False by simp
          qed
        qed
        with n(1) n'(1) show ?thesis by simp
      qed
    qed
  qed
  ultimately show ?thesis using D(2) by (simp add: fs_inv_def)
qed

lemma blocks_prefixD:
  "blocks_prefix fs \<Longrightarrow> k < MAX_INODES \<Longrightarrow> j < NBLOCKS \<Longrightarrow> j' < NBLOCKS \<Longrightarrow> j < j'
     \<Longrightarrow> block_at fs k j = - 1 \<Longrightarrow> block_at fs k j' = - 1"
  unfolding blocks_prefix_def by blast

lemma blocks_prefixI:
  "(\<And>k j j'. k < MAX_INODES \<Longrightarrow> j < NBLOCKS \<Longrightarrow> j' < NBLOCKS \<Longrightarrow> j < j'
     \<Longrightarrow> block_at fs k j = - 1 \<Longrightarrow> block_at fs k j' = - 1) \<Longrightarrow> blocks_prefix fs"
  unfolding blocks_prefix_def by blast

lemma alloc_effect_prefix:
  assumes eff: "alloc_effect fs ino 0 fs' i'" and pre: "blocks_prefix fs"
  shows "blocks_prefix fs'"
proof (rule blocks_prefixI)
  fix k j j'
  assume a: "k < MAX_INODES" "j < NBLOCKS" "j' < NBLOCKS" "j < j'" "block_at fs' k j = - 1"
  note D = alloc_effectD [OF eff]
  have "k \<noteq> ino \<or> i' \<le> j"
  proof (cases "k = ino \<and> j < i'")
    case True
    with D(9) [of j] a(5) show ?thesis by simp
  next
    case False
    then show ?thesis by auto
  qed
  with a(4) have u: "k \<noteq> ino \<or> i' \<le> j" "k \<noteq> ino \<or> i' \<le> j'" by auto
  have "block_at fs' k j = block_at fs k j" "block_at fs' k j' = block_at fs k j'"
    using D(8) [of k j] D(8) [of k j'] u by auto
  with a blocks_prefixD [OF pre a(1-4)] show "block_at fs' k j' = - 1" by simp
qed

lemma alloc_effect_newly_allocated:
  assumes eff: "alloc_effect fs ino 0 fs' i'" and i': "i' \<le> NBLOCKS"
  shows "newly_allocated fs fs' ino = filter (\<lambda>j. block_at fs ino j = - 1) [0..<i']"
proof -
  note D = alloc_effectD [OF eff]
  have split: "[0..<NBLOCKS] = [0..<i'] @ [i'..<NBLOCKS]"
    using upt_add_eq_append [of 0 i' "NBLOCKS - i'"] i' by simp
  have a: "filter (\<lambda>j. block_at fs ino j = - 1 \<and> block_at fs' ino j \<noteq> - 1) [0..<i']
             = filter (\<lambda>j. block_at fs ino j = - 1) [0..<i']"
  proof (rule filter_cong [OF refl])
    fix j assume "j \<in> set [0..<i']"
    then have "block_at fs' ino j \<noteq> - 1" using D(9) [of j] by simp
    then show "(block_at fs ino j = - 1 \<and> block_at fs' ino j \<noteq> - 1) = (block_at fs ino j = - 1)"
      by simp
  qed
  have b: "filter (\<lambda>j. block_at fs ino j = - 1 \<and> block_at fs' ino j \<noteq> - 1) [i'..<NBLOCKS] = []"
  proof -
    have "\<not> (block_at fs ino j = - 1 \<and> block_at fs' ino j \<noteq> - 1)" if "j \<in> set [i'..<NBLOCKS]" for j
    proof -
      from that have "i' \<le> j" by simp
      then have "block_at fs' ino j = block_at fs ino j" using D(8) [of ino j] by simp
      then show ?thesis by simp
    qed
    then show ?thesis unfolding filter_empty_conv by blast
  qed
  show ?thesis unfolding newly_allocated_def split filter_append a b by simp
qed

lemma alloc_effect_free_blocks:
  assumes eff: "alloc_effect fs ino 0 fs' i'" and i': "i' \<le> NBLOCKS"
  shows "free_blocks (super fs') = free_blocks (super fs) - int (length (newly_allocated fs fs' ino))"
  unfolding alloc_effect_newly_allocated [OF assms] by (rule alloc_effectD(10) [OF eff])


section \<open>The data loop\<close>

lemma write_block_fields [simp]:
  "super (write_block fs b buf) = super fs" "inodes (write_block fs b buf) = inodes fs"
  "bitmap (write_block fs b buf) = bitmap fs"
  "img_data (fp (write_block fs b buf)) = (img_data (fp fs))(b := buf)"
  by (simp_all add: write_block_def)

lemma block_at_write_block [simp]: "block_at (write_block fs b buf) k j = block_at fs k j"
  by (simp add: block_at_def)

lemma write_blocks_done: "\<not> i < n \<Longrightarrow> write_blocks fs ino data i n len = fs"
  by (subst write_blocks.simps) simp

lemma write_blocks_skip:
  "i < n \<Longrightarrow> block_at fs ino i = - 1
     \<Longrightarrow> write_blocks fs ino data i n len = write_blocks fs ino data (i + 1) n len"
  by (subst write_blocks.simps) (simp add: block_at_def)

lemma write_blocks_write:
  "i < n \<Longrightarrow> block_at fs ino i \<noteq> - 1
     \<Longrightarrow> write_blocks fs ino data i n len
         = write_blocks (write_block fs (block_at fs ino i) (block_buffer data i (min len BLOCK_SIZE)))
             ino data (i + 1) n (len - min len BLOCK_SIZE)"
  by (subst write_blocks.simps) (simp add: block_at_def Let_def min_def)

lemma write_blocks_frame:
  "super (write_blocks fs ino data i n len) = super fs
   \<and> inodes (write_blocks fs ino data i n len) = inodes fs
   \<and> bitmap (write_blocks fs ino data i n len) = bitmap fs"
proof (induction "n - i" arbitrary: fs i len)
  case 0
  then show ?case by (simp add: write_blocks_done)
next
  case (Suc d)
  then have lt: "i < n" and d: "d = n - (i + 1)" by simp_all
  show ?case
  proof (cases "block_at fs ino i = - 1")
    case True
    from Suc.hyps(1) [OF d] show ?thesis unfolding write_blocks_skip [OF lt True] .
  next
    case False
    from Suc.hyps(1) [OF d, of "write_block fs (block_at fs ino i) (block_buffer data i (min len BLOCK_SIZE))"]
    show ?thesis unfolding write_blocks_write [OF lt False] by simp
  qed
qed

lemma set_inode_size_fields [simp]:
  "super (set_inode_size fs ino sz now) = super fs"
  "bitmap (set_inode_size fs ino sz now) = bitmap fs"
  "fp (set_inode_size fs ino sz now) = fp fs"
  "length (inodes (set_inode_size fs ino sz now)) = length (inodes fs)"
  by (simp_all add: set_inode_size_def)

lemma set_inode_size_inode_fields [simp]:
  "name (inodes (set_inode_size fs ino sz now) ! k) = name (inodes fs ! k)"
  "blocks (inodes (set_inode_size fs ino sz now) ! k) = blocks (inodes fs ! k)"
  unfolding set_inode_size_def
  by (simp_all add: nth_list_update_field [where g = "\<lambda>x. x\<lparr>size_bytes := sz, modified := now\<rparr>"])

lemma size_set_inode_size:
  "ino < length (inodes fs) \<Longrightarrow> size_bytes (inodes (set_inode_size fs ino sz now) ! ino) = sz"
  by (simp add: set_inode_size_def)

section \<open>The cases of a write\<close>

lemma blocks_needed_for_le:
  "length data \<le> MAX_FILE_SIZE \<Longrightarrow> blocks_needed_for data \<le> NBLOCKS"
  unfolding blocks_needed_for_def MAX_FILE_SIZE_def NBLOCKS_eq BLOCK_SIZE_def by simp

lemma fs_find_inode_found:
  assumes "fs_find_inode fs nm \<noteq> - 1"
  obtains r where "fs_find_inode fs nm = int r" "r < MAX_INODES" "name (inodes fs ! r) = nm"
    "nm \<noteq> []" "used_slot fs r"
  using fs_find_inode_from_some [OF assms [unfolded fs_find_inode_def]]
  unfolding fs_find_inode_def used_slot_def by auto

lemma fs_write_file_cases:
  obtains (not_found) "fs_find_inode fs nm = - 1" "fs_write_file fs nm data now = (fs, Inl NotFound)"
  | (too_large) r where "fs_find_inode fs nm = int r" "r < MAX_INODES" "used_slot fs r"
      "length data > MAX_FILE_SIZE" "fs_write_file fs nm data now = (fs, Inl TooLarge)"
  | (no_block) r where "fs_find_inode fs nm = int r" "r < MAX_INODES" "used_slot fs r"
      "length data \<le> MAX_FILE_SIZE" "\<not> snd (alloc_blocks fs r 0 (blocks_needed_for data))"
      "fs_write_file fs nm data now
         = (fst (alloc_blocks fs r 0 (blocks_needed_for data)), Inl NoFreeBlock)"
  | (written) r where "fs_find_inode fs nm = int r" "r < MAX_INODES" "used_slot fs r"
      "length data \<le> MAX_FILE_SIZE" "snd (alloc_blocks fs r 0 (blocks_needed_for data))"
      "fs_write_file fs nm data now
         = (flush_inodes (set_inode_size
              (write_blocks (fst (alloc_blocks fs r 0 (blocks_needed_for data))) r data 0
                 (blocks_needed_for data) (length data))
              r (int (length data)) now), Inr 0)"
proof (cases "fs_find_inode fs nm = - 1")
  case True
  then have "fs_write_file fs nm data now = (fs, Inl NotFound)"
    by (simp add: fs_write_file_def)
  with True show ?thesis by (rule not_found)
next
  case False
  from fs_find_inode_found [OF False]
  obtain r where r: "fs_find_inode fs nm = int r" "r < MAX_INODES" "used_slot fs r" by blast
  show ?thesis
  proof (cases "length data > MAX_FILE_SIZE")
    case True
    with r have "fs_write_file fs nm data now = (fs, Inl TooLarge)"
      by (simp add: fs_write_file_def)
    with r True show ?thesis by (intro too_large)
  next
    case small: False
    then have le: "length data \<le> MAX_FILE_SIZE" by simp
    show ?thesis
    proof (cases "snd (alloc_blocks fs r 0 (blocks_needed_for data))")
      case True
      with r small have "fs_write_file fs nm data now
         = (flush_inodes (set_inode_size
              (write_blocks (fst (alloc_blocks fs r 0 (blocks_needed_for data))) r data 0
                 (blocks_needed_for data) (length data))
              r (int (length data)) now), Inr 0)"
        by (simp add: fs_write_file_def blocks_needed_for_def Let_def split_beta)
      with r le True show ?thesis by (intro written)
    next
      case False
      with r small have "fs_write_file fs nm data now
         = (fst (alloc_blocks fs r 0 (blocks_needed_for data)), Inl NoFreeBlock)"
        by (simp add: fs_write_file_def blocks_needed_for_def Let_def split_beta)
      with r le False show ?thesis by (intro no_block)
    qed
  qed
qed


section \<open>The properties depend on the metadata only\<close>

lemma fs_shape_cong:
  assumes "super fs' = super fs" and "bitmap fs' = bitmap fs"
    and "length (inodes fs') = length (inodes fs)"
    and "\<And>k. blocks (inodes fs' ! k) = blocks (inodes fs ! k)"
  shows "fs_shape fs' = fs_shape fs"
  unfolding fs_shape_def using assms by simp

lemma fs_inv_cong:
  assumes "super fs' = super fs" and "bitmap fs' = bitmap fs"
    and "length (inodes fs') = length (inodes fs)"
    and "\<And>k. name (inodes fs' ! k) = name (inodes fs ! k)"
    and "\<And>k. blocks (inodes fs' ! k) = blocks (inodes fs ! k)"
  shows "fs_inv fs' = fs_inv fs"
proof -
  have "used_slot fs' k = used_slot fs k" for k by (simp add: used_slot_def assms)
  moreover have "block_at fs' k j = block_at fs k j" for k j by (simp add: block_at_def assms)
  ultimately show ?thesis
    unfolding fs_inv_def blocks_owned_def blocks_unshared_def fs_shape_cong [OF assms(1,2,3,5)]
    by (simp add: assms(1,2))
qed

lemma blocks_prefix_cong:
  assumes "\<And>k. blocks (inodes fs' ! k) = blocks (inodes fs ! k)"
  shows "blocks_prefix fs' = blocks_prefix fs"
  unfolding blocks_prefix_def block_at_def assms ..

section \<open>What a write does to the metadata\<close>

text \<open>
  The metadata after a write are those the allocation loop left, but for the size and
  the modification time of the file when the write succeeded.
\<close>

lemma fs_write_file_meta:
  assumes "fs_find_inode fs nm = int r"
    and "length data \<le> MAX_FILE_SIZE"
  shows "super (fst (fs_write_file fs nm data now))
           = super (fst (alloc_blocks fs r 0 (blocks_needed_for data)))"
    and "bitmap (fst (fs_write_file fs nm data now))
           = bitmap (fst (alloc_blocks fs r 0 (blocks_needed_for data)))"
    and "length (inodes (fst (fs_write_file fs nm data now)))
           = length (inodes (fst (alloc_blocks fs r 0 (blocks_needed_for data))))"
    and "\<And>k. name (inodes (fst (fs_write_file fs nm data now)) ! k)
           = name (inodes (fst (alloc_blocks fs r 0 (blocks_needed_for data))) ! k)"
    and "\<And>k. blocks (inodes (fst (fs_write_file fs nm data now)) ! k)
           = blocks (inodes (fst (alloc_blocks fs r 0 (blocks_needed_for data))) ! k)"
proof -
  let ?A = "fst (alloc_blocks fs r 0 (blocks_needed_for data))"
  let ?W = "write_blocks ?A r data 0 (blocks_needed_for data) (length data)"
  have w: "fst (fs_write_file fs nm data now) = ?A
         \<or> fst (fs_write_file fs nm data now)
             = flush_inodes (set_inode_size ?W r (int (length data)) now)"
    using assms by (cases rule: fs_write_file_cases [of fs nm data now]) auto
  note fr = write_blocks_frame [of ?A r data 0 "blocks_needed_for data" "length data"]
  show "super (fst (fs_write_file fs nm data now)) = super ?A"
    using w fr by auto
  show "bitmap (fst (fs_write_file fs nm data now)) = bitmap ?A"
    using w fr by auto
  show "length (inodes (fst (fs_write_file fs nm data now))) = length (inodes ?A)"
    using w fr by auto
  show "name (inodes (fst (fs_write_file fs nm data now)) ! k) = name (inodes ?A ! k)" for k
    using w fr by auto
  show "blocks (inodes (fst (fs_write_file fs nm data now)) ! k) = blocks (inodes ?A ! k)" for k
    using w fr by auto
qed

lemma block_at_fs_write_file:
  assumes "fs_find_inode fs nm = int r" and "length data \<le> MAX_FILE_SIZE"
  shows "block_at (fst (fs_write_file fs nm data now)) k j
           = block_at (fst (alloc_blocks fs r 0 (blocks_needed_for data))) k j"
  unfolding block_at_def fs_write_file_meta(5) [OF assms] ..

text \<open>A write that does not reach the allocation loop returns the state it was given.\<close>

lemma fs_write_file_unchanged:
  assumes "fs_find_inode fs nm = - 1 \<or> length data > MAX_FILE_SIZE"
  shows "fst (fs_write_file fs nm data now) = fs"
  using assms by (cases rule: fs_write_file_cases [of fs nm data now]) auto

lemma fs_write_file_inv:
  assumes "fs_inv fs"
  shows "fs_inv (fst (fs_write_file fs nm data now))"
proof (cases "fs_find_inode fs nm = - 1 \<or> length data > MAX_FILE_SIZE")
  case True
  with assms show ?thesis by (simp add: fs_write_file_unchanged)
next
  case False
  then have f: "fs_find_inode fs nm \<noteq> - 1" and le: "length data \<le> MAX_FILE_SIZE" by simp_all
  from fs_find_inode_found [OF f]
  obtain r where r: "fs_find_inode fs nm = int r" "r < MAX_INODES" by blast
  from alloc_blocks_effect [OF fs_invD(1) [OF assms] r(2) blocks_needed_for_le [OF le] le0]
  obtain i' where "alloc_effect fs r 0 (fst (alloc_blocks fs r 0 (blocks_needed_for data))) i'"
    by blast
  then have "fs_inv (fst (alloc_blocks fs r 0 (blocks_needed_for data)))"
    using assms by (rule alloc_effect_inv)
  then show ?thesis
    unfolding fs_inv_cong [OF fs_write_file_meta [OF r(1) le]] .
qed

lemma fs_write_file_shape:
  assumes "fs_shape fs"
  shows "fs_shape (fst (fs_write_file fs nm data now))"
proof (cases "fs_find_inode fs nm = - 1 \<or> length data > MAX_FILE_SIZE")
  case True
  with assms show ?thesis by (simp add: fs_write_file_unchanged)
next
  case False
  then have f: "fs_find_inode fs nm \<noteq> - 1" and le: "length data \<le> MAX_FILE_SIZE" by simp_all
  from fs_find_inode_found [OF f]
  obtain r where r: "fs_find_inode fs nm = int r" "r < MAX_INODES" by blast
  from alloc_blocks_effect [OF assms r(2) blocks_needed_for_le [OF le] le0]
  obtain i' where "alloc_effect fs r 0 (fst (alloc_blocks fs r 0 (blocks_needed_for data))) i'"
    by blast
  then have "fs_shape (fst (alloc_blocks fs r 0 (blocks_needed_for data)))"
    by (rule alloc_effectD(2))
  then show ?thesis
    unfolding fs_shape_cong [OF fs_write_file_meta(1,2,3,5) [OF r(1) le]] .
qed

lemma fs_write_file_prefix:
  assumes "fs_shape fs" and "blocks_prefix fs"
  shows "blocks_prefix (fst (fs_write_file fs nm data now))"
proof (cases "fs_find_inode fs nm = - 1 \<or> length data > MAX_FILE_SIZE")
  case True
  with assms show ?thesis by (simp add: fs_write_file_unchanged)
next
  case False
  then have f: "fs_find_inode fs nm \<noteq> - 1" and le: "length data \<le> MAX_FILE_SIZE" by simp_all
  from fs_find_inode_found [OF f]
  obtain r where r: "fs_find_inode fs nm = int r" "r < MAX_INODES" by blast
  from alloc_blocks_effect [OF assms(1) r(2) blocks_needed_for_le [OF le] le0]
  obtain i' where "alloc_effect fs r 0 (fst (alloc_blocks fs r 0 (blocks_needed_for data))) i'"
    by blast
  then have "blocks_prefix (fst (alloc_blocks fs r 0 (blocks_needed_for data)))"
    using assms(2) by (rule alloc_effect_prefix)
  then show ?thesis
    unfolding blocks_prefix_cong [OF fs_write_file_meta(5) [OF r(1) le]] .
qed

text \<open>The counter after a write, by the positions that got a block.\<close>

lemma fs_write_file_free_blocks:
  assumes "fs_shape fs"
  shows "free_blocks (super (fst (fs_write_file fs nm data now)))
           = free_blocks (super fs)
             - int (length (newly_allocated fs (fst (fs_write_file fs nm data now))
                              (nat (fs_find_inode fs nm))))"
proof (cases "fs_find_inode fs nm = - 1 \<or> length data > MAX_FILE_SIZE")
  case True
  then have "fst (fs_write_file fs nm data now) = fs" by (rule fs_write_file_unchanged)
  then show ?thesis by (simp add: newly_allocated_def)
next
  case False
  then have f: "fs_find_inode fs nm \<noteq> - 1" and le: "length data \<le> MAX_FILE_SIZE" by simp_all
  from fs_find_inode_found [OF f]
  obtain r where r: "fs_find_inode fs nm = int r" "r < MAX_INODES" by blast
  let ?A = "fst (alloc_blocks fs r 0 (blocks_needed_for data))"
  from alloc_blocks_effect [OF assms r(2) blocks_needed_for_le [OF le] le0]
  obtain i' where i': "i' \<le> blocks_needed_for data" and eff: "alloc_effect fs r 0 ?A i'"
    by blast
  from i' blocks_needed_for_le [OF le] have "i' \<le> NBLOCKS" by simp
  from alloc_effect_free_blocks [OF eff this]
  have "free_blocks (super ?A) = free_blocks (super fs) - int (length (newly_allocated fs ?A r))" .
  moreover have "newly_allocated fs (fst (fs_write_file fs nm data now)) r = newly_allocated fs ?A r"
    unfolding newly_allocated_def block_at_fs_write_file [OF r(1) le] ..
  ultimately show ?thesis
    unfolding fs_write_file_meta(1) [OF r(1) le] r(1) by simp
qed


section \<open>What a create does to the metadata\<close>

lemma fs_create_file_meta:
  obtains (same) "fst (fs_create_file fs nm now) = fs"
  | (new) r where "r < MAX_INODES" "name (inodes fs ! r) = []"
      "super (fst (fs_create_file fs nm now)) = super fs"
      "bitmap (fst (fs_create_file fs nm now)) = bitmap fs"
      "inodes (fst (fs_create_file fs nm now))
         = (inodes fs)[r := (inodes fs ! r)
               \<lparr>name := strncpy_name nm, size_bytes := 0, blocks := replicate NBLOCKS (- 1),
                created := now, modified := now\<rparr>]"
proof (cases rule: fs_create_file_cases [of fs nm now])
  case exists
  then show ?thesis by (intro same) simp
next
  case full
  then show ?thesis by (intro same) simp
next
  case (new r)
  show ?thesis by (rule that(2) [of r]) (use new in simp_all)
qed

lemma fs_create_file_shape:
  assumes "fs_shape fs"
  shows "fs_shape (fst (fs_create_file fs nm now))"
proof (cases rule: fs_create_file_meta [of fs nm now])
  case same
  with assms show ?thesis by simp
next
  case (new r)
  have "length (blocks (inodes (fst (fs_create_file fs nm now)) ! k)) = NBLOCKS"
    if "k < MAX_INODES" for k
    unfolding new(5) using that fs_shapeD(1,5) [OF assms]
    by (cases "k = r") simp_all
  then show ?thesis
    unfolding fs_shape_def using fs_shapeD [OF assms] by (simp add: new(3,4,5))
qed

lemma block_at_fs_create_file:
  assumes "fs_shape fs" and "k < MAX_INODES" and "j < NBLOCKS"
  shows "block_at (fst (fs_create_file fs nm now)) k j = block_at fs k j
       \<or> (block_at (fst (fs_create_file fs nm now)) k j = - 1
           \<and> (\<forall>j'<NBLOCKS. block_at (fst (fs_create_file fs nm now)) k j' = - 1))"
proof (cases rule: fs_create_file_meta [of fs nm now])
  case same
  then show ?thesis by simp
next
  case (new r)
  show ?thesis
  proof (cases "k = r")
    case True
    then have "block_at (fst (fs_create_file fs nm now)) k j' = - 1" if "j' < NBLOCKS" for j'
      unfolding block_at_def new(5) using that new(1) fs_shapeD(1) [OF assms(1)] by simp
    with assms(3) show ?thesis by simp
  next
    case False
    then have "block_at (fst (fs_create_file fs nm now)) k j = block_at fs k j"
      unfolding block_at_def new(5) by simp
    then show ?thesis by simp
  qed
qed

lemma used_slot_fs_create_file:
  assumes "fs_shape fs" and "k < MAX_INODES" and "used_slot (fst (fs_create_file fs nm now)) k"
  shows "used_slot fs k \<or> (\<forall>j<NBLOCKS. block_at (fst (fs_create_file fs nm now)) k j = - 1)"
proof (cases rule: fs_create_file_meta [of fs nm now])
  case same
  with assms(3) show ?thesis by simp
next
  case (new r)
  show ?thesis
  proof (cases "k = r")
    case True
    then have "block_at (fst (fs_create_file fs nm now)) k j' = - 1" if "j' < NBLOCKS" for j'
      unfolding block_at_def new(5) using that new(1) fs_shapeD(1) [OF assms(1)] by simp
    then show ?thesis by simp
  next
    case False
    with assms(3) show ?thesis unfolding used_slot_def new(5) by simp
  qed
qed

lemma fs_create_file_layout:
  "super (fst (fs_create_file fs nm now)) = super fs"
  "bitmap (fst (fs_create_file fs nm now)) = bitmap fs"
  by (cases rule: fs_create_file_meta [of fs nm now]; simp)+

lemma fs_create_file_inv:
  assumes inv: "fs_inv fs"
  shows "fs_inv (fst (fs_create_file fs nm now))"
proof -
  let ?C = "fst (fs_create_file fs nm now)"
  note sh = fs_invD(1) [OF inv]
  note own = blocks_ownedD [OF fs_invD(2) [OF inv]]
  note uns = blocks_unsharedD [OF fs_invD(3) [OF inv]]
  text \<open>An entry of a file that is not -1 after the create was one of that file before.\<close>
  have old: "used_slot fs k" "block_at ?C k j = block_at fs k j"
    if "k < MAX_INODES" "j < NBLOCKS" "used_slot ?C k" "block_at ?C k j \<noteq> - 1" for k j
  proof -
    from used_slot_fs_create_file [OF sh that(1,3)] that(2,4) show "used_slot fs k" by blast
    from block_at_fs_create_file [OF sh that(1,2), of nm now] that(4)
    show "block_at ?C k j = block_at fs k j" by blast
  qed
  have "blocks_owned ?C"
  proof (rule blocks_ownedI)
    fix k j
    assume a: "k < MAX_INODES" "j < NBLOCKS" "used_slot ?C k" "block_at ?C k j \<noteq> - 1"
    note o = old [OF a]
    from a(4) have "block_at fs k j \<noteq> - 1" unfolding o(2) .
    from own [OF a(1,2) o(1) this]
    show "data_start (super ?C) \<le> block_at ?C k j \<and> block_at ?C k j < total_blocks (super ?C)
         \<and> bitmap ?C ! nat (block_at ?C k j) = 1"
      unfolding fs_create_file_layout o(2) .
  qed
  moreover have "blocks_unshared ?C"
  proof (rule blocks_unsharedI)
    fix k j k' j'
    assume kj: "k < MAX_INODES" "j < NBLOCKS" and kj': "k' < MAX_INODES" "j' < NBLOCKS"
      and u: "used_slot ?C k" and u': "used_slot ?C k'"
      and ne: "block_at ?C k j \<noteq> - 1" and eq: "block_at ?C k j = block_at ?C k' j'"
    from ne eq have ne': "block_at ?C k' j' \<noteq> - 1" by simp
    note o = old [OF kj u ne] and o' = old [OF kj' u' ne']
    from ne have 1: "block_at fs k j \<noteq> - 1" unfolding o(2) .
    from eq have 2: "block_at fs k j = block_at fs k' j'" unfolding o(2) o'(2) .
    from uns [OF kj kj' o(1) o'(1) 1 2] show "k = k' \<and> j = j'" .
  qed
  ultimately show ?thesis using fs_create_file_shape [OF sh] by (simp add: fs_inv_def)
qed

lemma fs_create_file_prefix:
  assumes sh: "fs_shape fs" and pre: "blocks_prefix fs"
  shows "blocks_prefix (fst (fs_create_file fs nm now))"
proof (rule blocks_prefixI)
  let ?C = "fst (fs_create_file fs nm now)"
  fix k j j'
  assume a: "k < MAX_INODES" "j < NBLOCKS" "j' < NBLOCKS" "j < j'" "block_at ?C k j = - 1"
  from block_at_fs_create_file [OF sh a(1,2), of nm now]
  show "block_at ?C k j' = - 1"
  proof
    assume "block_at ?C k j = - 1 \<and> (\<forall>j'<NBLOCKS. block_at ?C k j' = - 1)"
    with a(3) show ?thesis by simp
  next
    assume same: "block_at ?C k j = block_at fs k j"
    from block_at_fs_create_file [OF sh a(1,3), of nm now]
    show ?thesis
    proof
      assume "block_at ?C k j' = block_at fs k j'"
      with same a blocks_prefixD [OF pre a(1-4)] show ?thesis by simp
    qed simp
  qed
qed

section \<open>The formatted image\<close>

lemma fs_shape_fs_format: "fs_shape (fs_format isz)"
  unfolding fs_shape_def
  by (simp add: inodes_fs_format bitmap_fs_format super_fs_format format_super_def Let_def
        zero_inode_def)

lemma used_slot_fs_format: "k < MAX_INODES \<Longrightarrow> \<not> used_slot (fs_format isz) k"
  by (simp add: used_slot_def name_fs_format)

lemma block_at_fs_format: "k < MAX_INODES \<Longrightarrow> j < NBLOCKS \<Longrightarrow> block_at (fs_format isz) k j = 0"
  by (simp add: block_at_def inodes_fs_format zero_inode_def)

lemma fs_inv_fs_format: "fs_inv (fs_format isz)"
  unfolding fs_inv_def
  by (auto intro: blocks_ownedI blocks_unsharedI simp: fs_shape_fs_format used_slot_fs_format)

lemma blocks_prefix_fs_format: "blocks_prefix (fs_format isz)"
  by (rule blocks_prefixI) (simp add: block_at_fs_format)

section \<open>Sessions\<close>

lemma run_Nil [simp]: "run fs [] = fs"
  by (simp add: run_def)

lemma run_Cons [simp]: "run fs (op # ops) = run (step fs op) ops"
  by (simp add: run_def)

lemma run_append: "run fs (ops @ ops') = run (run fs ops) ops'"
  by (simp add: run_def)

lemma step_inv: "fs_inv fs \<Longrightarrow> fs_inv (step fs op)"
  by (cases op) (simp_all add: fs_create_file_inv fs_write_file_inv)

lemma step_shape: "fs_shape fs \<Longrightarrow> fs_shape (step fs op)"
  by (cases op) (simp_all add: fs_create_file_shape fs_write_file_shape)

lemma step_prefix: "fs_shape fs \<Longrightarrow> blocks_prefix fs \<Longrightarrow> blocks_prefix (step fs op)"
  by (cases op) (simp_all add: fs_create_file_prefix fs_write_file_prefix)

lemma run_inv: "fs_inv fs \<Longrightarrow> fs_inv (run fs ops)"
  by (induction ops arbitrary: fs) (simp_all add: step_inv)

lemma run_shape: "fs_shape fs \<Longrightarrow> fs_shape (run fs ops)"
  by (induction ops arbitrary: fs) (simp_all add: step_shape)

lemma run_prefix: "fs_shape fs \<Longrightarrow> blocks_prefix fs \<Longrightarrow> blocks_prefix (run fs ops)"
  by (induction ops arbitrary: fs) (simp_all add: step_shape step_prefix)

lemma step_free_blocks:
  assumes "fs_shape fs"
  shows "free_blocks (super (step fs op)) =
     (case op of
        Write nm data now \<Rightarrow>
          free_blocks (super fs)
            - int (length (newly_allocated fs (step fs op) (nat (fs_find_inode fs nm))))
      | _ \<Rightarrow> free_blocks (super fs))"
  by (cases op) (simp_all add: fs_create_file_layout fs_write_file_free_blocks [OF assms])

lemma step_free_blocks_le: "fs_shape fs \<Longrightarrow> free_blocks (super (step fs op)) \<le> free_blocks (super fs)"
  unfolding step_free_blocks by (cases op) simp_all

lemma run_free_blocks_le: "fs_shape fs \<Longrightarrow> free_blocks (super (run fs ops)) \<le> free_blocks (super fs)"
proof (induction ops arbitrary: fs)
  case Nil
  then show ?case by simp
next
  case (Cons op ops)
  from Cons.IH [OF step_shape [OF Cons.prems], of op] step_free_blocks_le [OF Cons.prems, of op]
  show ?case by simp
qed


section \<open>Claims about every session\<close>

text \<open>
  Claim C8, as the code has it. In every state that a sequence of create, write, read
  and list operations reaches from a freshly formatted image, every entry other than -1
  in \<open>blocks\<close> of a slot that holds a file lies in \<open>data_start..total_blocks - 1\<close> and has
  its bitmap entry at 1, and no block is at two positions of such slots. (A slot that
  never held a file has ten entries 0, from the \<^verbatim>\<open>memset\<close> of the format.)
\<close>

theorem blocks_owned_reachable:
  assumes "list_all op_ok ops"
  shows "blocks_owned (run (fs_format isz) ops) \<and> blocks_unshared (run (fs_format isz) ops)"
proof -
  have "fs_inv (fs_format isz)" by (rule fs_inv_fs_format)
  then have inv: "fs_inv (run (fs_format isz) ops)" by (rule run_inv)
  from fs_invD(2) [OF inv] fs_invD(3) [OF inv] show ?thesis by (rule conjI)
qed

theorem blocks_owned_reachable_witness:
  "list_all op_ok [Create ''a'' 0, Write ''a'' ''hello world'' 1, Read ''a'', ListFiles]
   \<and> blocks_owned (run (fs_format 96)
        [Create ''a'' 0, Write ''a'' ''hello world'' 1, Read ''a'', ListFiles])
   \<and> blocks_unshared (run (fs_format 96)
        [Create ''a'' 0, Write ''a'' ''hello world'' 1, Read ''a'', ListFiles])"
proof -
  have ok: "list_all op_ok [Create ''a'' 0, Write ''a'' ''hello world'' 1, Read ''a'', ListFiles]"
    by (simp add: MAX_FILENAME_def)
  from ok blocks_owned_reachable [OF ok, of 96] show ?thesis by (rule conjI)
qed

text \<open>
  The claim as stated, for every inode of the table, fails on the formatted image
  itself: slot 0 has the entry 0 at positions 0 and 1, which is not -1 and lies before
  \<open>data_start\<close>.
\<close>

theorem blocks_owned_reachable_counterexample:
  "block_at (run (fs_format 96) []) 0 0 \<noteq> - 1
   \<and> \<not> data_start (super (run (fs_format 96) [])) \<le> block_at (run (fs_format 96) []) 0 0
   \<and> block_at (run (fs_format 96) []) 0 0 = block_at (run (fs_format 96) []) 0 1"
  by (simp add: block_at_fs_format MAX_INODES_def NBLOCKS_eq format_super_96)

text \<open>
  Claim C9. Along a session that starts from a formatted image \<open>free_blocks\<close> never
  increases: it is the same after a create, a read and a list, and after a write it is
  lower by the number of positions of the file that were -1 and hold a block now.
\<close>

theorem free_blocks_never_increases:
  assumes "list_all op_ok ops" and "list_all op_ok ops'" and "op_ok op"
  shows "free_blocks (super (run (fs_format isz) (ops @ ops')))
           \<le> free_blocks (super (run (fs_format isz) ops))
       \<and> free_blocks (super (step (run (fs_format isz) ops) op)) =
          (case op of
             Write nm data now \<Rightarrow>
               free_blocks (super (run (fs_format isz) ops))
                 - int (length (newly_allocated (run (fs_format isz) ops)
                                  (step (run (fs_format isz) ops) op)
                                  (nat (fs_find_inode (run (fs_format isz) ops) nm))))
           | _ \<Rightarrow> free_blocks (super (run (fs_format isz) ops)))"
proof -
  have sh: "fs_shape (run (fs_format isz) ops)"
    by (rule run_shape [OF fs_shape_fs_format])
  show ?thesis
    unfolding run_append using run_free_blocks_le [OF sh] step_free_blocks [OF sh] by (rule conjI)
qed

theorem free_blocks_never_increases_witness:
  "list_all op_ok [Create ''a'' 0] \<and> list_all op_ok [Write ''a'' ''hello world'' 1, Read ''a'']
   \<and> op_ok (Write ''a'' ''hello world'' 1)
   \<and> free_blocks (super (run (fs_format 96)
         ([Create ''a'' 0] @ [Write ''a'' ''hello world'' 1, Read ''a''])))
       \<le> free_blocks (super (run (fs_format 96) [Create ''a'' 0]))
   \<and> free_blocks (super (step (run (fs_format 96) [Create ''a'' 0]) (Write ''a'' ''hello world'' 1)))
       = free_blocks (super (run (fs_format 96) [Create ''a'' 0]))
           - int (length (newly_allocated (run (fs_format 96) [Create ''a'' 0])
                   (step (run (fs_format 96) [Create ''a'' 0]) (Write ''a'' ''hello world'' 1))
                   (nat (fs_find_inode (run (fs_format 96) [Create ''a'' 0]) ''a''))))"
proof -
  have ok: "list_all op_ok [Create ''a'' 0]"
    "list_all op_ok [Write ''a'' ''hello world'' 1, Read ''a'']"
    "op_ok (Write ''a'' ''hello world'' 1)"
    by (simp_all add: MAX_FILENAME_def)
  from free_blocks_never_increases [OF ok, of 96] ok show ?thesis by simp
qed

text \<open>
  Claim C10. In every state that a sequence of create, write, read and list operations
  reaches from a freshly formatted image, in every slot of the inode table the entries
  of \<open>blocks\<close> other than -1 come first: when the entry at \<open>j\<close> is -1, so is the entry at
  every \<open>j' > j\<close>.
\<close>

theorem blocks_prefix_reachable:
  assumes "list_all op_ok ops"
  shows "blocks_prefix (run (fs_format isz) ops)"
proof -
  have "fs_shape (fs_format isz)" by (rule fs_shape_fs_format)
  moreover have "blocks_prefix (fs_format isz)" by (rule blocks_prefix_fs_format)
  ultimately show ?thesis by (rule run_prefix)
qed

theorem blocks_prefix_reachable_witness:
  "list_all op_ok [Create ''a'' 0, Write ''a'' ''hello world'' 1, Read ''a'', ListFiles]
   \<and> blocks_prefix (run (fs_format 96)
        [Create ''a'' 0, Write ''a'' ''hello world'' 1, Read ''a'', ListFiles])"
proof -
  have ok: "list_all op_ok [Create ''a'' 0, Write ''a'' ''hello world'' 1, Read ''a'', ListFiles]"
    by (simp add: MAX_FILENAME_def)
  from ok blocks_prefix_reachable [OF ok, of 96] show ?thesis by (rule conjI)
qed


section \<open>Blocks of a written file\<close>

lemma div_round_up:
  fixes n d :: nat
  assumes "0 < d"
  shows "(n + d - 1) div d = n div d + (if n mod d \<noteq> 0 then 1 else 0)"
proof -
  define q m where "q = n div d" and "m = n mod d"
  have n: "n = m + q * d" and m: "m < d" using assms by (simp_all add: q_def m_def)
  show ?thesis
  proof (cases "m = 0")
    case True
    have "n + d - 1 = (d - 1) + q * d" using assms n True by simp
    then have "(n + d - 1) div d = q + (d - 1) div d"
      using assms by (simp only: div_mult_self1)
    also have "(d - 1) div d = 0" using assms by simp
    finally show ?thesis using True by (simp add: q_def m_def)
  next
    case False
    have "n + d - 1 = (m - 1) + (q + 1) * d" using False n by (simp add: algebra_simps)
    then have "(n + d - 1) div d = (q + 1) + (m - 1) div d"
      using assms by (simp only: div_mult_self1)
    also have "(m - 1) div d = 0" using m by simp
    finally show ?thesis using False by (simp add: q_def m_def)
  qed
qed

lemma blocks_needed_for_ceiling:
  "int (blocks_needed_for data) = \<lceil>real (length data) / real BLOCK_SIZE\<rceil>"
proof -
  have pos: "0 < BLOCK_SIZE" by (simp add: BLOCK_SIZE_def)
  show ?thesis
    unfolding blocks_needed_for_def ceil_nat_div [OF pos] div_round_up [OF pos] by simp
qed

lemma blocks_needed_for_nat:
  "nat \<lceil>real (length data) / real BLOCK_SIZE\<rceil> = blocks_needed_for data"
  unfolding blocks_needed_for_ceiling [symmetric] by simp

text \<open>The state after a write that succeeded, and the effect of its allocation loop.\<close>

lemma fs_write_file_ok:
  assumes sh: "fs_shape fs" and w: "fs_write_file fs nm data now = (fs', Inr res)"
  obtains r where "fs_find_inode fs nm = int r" "r < MAX_INODES" "used_slot fs r"
    "length data \<le> MAX_FILE_SIZE" "res = 0"
    "alloc_effect fs r 0 (fst (alloc_blocks fs r 0 (blocks_needed_for data)))
       (blocks_needed_for data)"
    "fs' = flush_inodes (set_inode_size
              (write_blocks (fst (alloc_blocks fs r 0 (blocks_needed_for data))) r data 0
                 (blocks_needed_for data) (length data))
              r (int (length data)) now)"
proof (cases rule: fs_write_file_cases [of fs nm data now])
  case not_found
  with w show ?thesis by simp
next
  case (too_large r)
  with w show ?thesis by simp
next
  case (no_block r)
  with w show ?thesis by simp
next
  case (written r)
  from alloc_blocks_effect [OF sh written(2) blocks_needed_for_le [OF written(4)] le0]
    written(5)
  have "alloc_effect fs r 0 (fst (alloc_blocks fs r 0 (blocks_needed_for data)))
       (blocks_needed_for data)" by auto
  with written w show ?thesis by (intro that [of r]) simp_all
qed

text \<open>
  Claim C3, as the code has it. After a successful write of \<open>L\<close> bytes the first
  \<open>\<lceil>L / block_size\<rceil>\<close> entries of \<open>blocks\<close> of the file are not -1, and every entry at a
  higher position is the entry that was there before the write. So when the higher
  positions held -1 before, as they do after create, they hold -1 after, and exactly
  \<open>\<lceil>L / block_size\<rceil>\<close> entries are not -1.
\<close>

theorem fs_write_file_blocks:
  assumes "fs_shape fs" and "fs_write_file fs nm data now = (fs', Inr res)"
  shows "let ino = nat (fs_find_inode fs nm);
             k = nat \<lceil>real (length data) / real BLOCK_SIZE\<rceil>
         in (\<forall>j\<in>{..<k}. block_at fs' ino j \<noteq> - 1)
          \<and> (\<forall>j\<in>{k..<NBLOCKS}. block_at fs' ino j = block_at fs ino j)
          \<and> ((\<forall>j\<in>{k..<NBLOCKS}. block_at fs ino j = - 1) \<longrightarrow>
                filter (\<lambda>j. block_at fs' ino j \<noteq> - 1) [0..<NBLOCKS] = [0..<k])"
proof -
  from assms obtain r where r: "fs_find_inode fs nm = int r" "length data \<le> MAX_FILE_SIZE"
    and eff: "alloc_effect fs r 0 (fst (alloc_blocks fs r 0 (blocks_needed_for data)))
       (blocks_needed_for data)"
    by (rule fs_write_file_ok)
  let ?k = "blocks_needed_for data"
  have fs': "fs' = fst (fs_write_file fs nm data now)" using assms(2) by simp
  have ba: "block_at fs' k j = block_at (fst (alloc_blocks fs r 0 ?k)) k j" for k j
    unfolding fs' by (rule block_at_fs_write_file [OF r])
  note D = alloc_effectD [OF eff]
  have 1: "block_at fs' r j \<noteq> - 1" if "j < ?k" for j
    unfolding ba using that by (intro D(9)) simp_all
  have 2: "block_at fs' r j = block_at fs r j" if "?k \<le> j" for j
    unfolding ba using that by (intro D(8)) simp
  have 3: "filter (\<lambda>j. block_at fs' r j \<noteq> - 1) [0..<NBLOCKS] = [0..<?k]"
    if "\<forall>j\<in>{?k..<NBLOCKS}. block_at fs r j = - 1"
  proof -
    have kN: "?k \<le> NBLOCKS" by (rule blocks_needed_for_le [OF r(2)])
    have split: "[0..<NBLOCKS] = [0..<?k] @ [?k..<NBLOCKS]"
      using upt_add_eq_append [of 0 ?k "NBLOCKS - ?k"] kN by simp
    have a: "filter (\<lambda>j. block_at fs' r j \<noteq> - 1) [0..<?k] = [0..<?k]"
      using 1 by (simp add: filter_id_conv)
    have b: "filter (\<lambda>j. block_at fs' r j \<noteq> - 1) [?k..<NBLOCKS] = []"
      using 2 that by (simp add: filter_empty_conv)
    show ?thesis unfolding split filter_append a b by simp
  qed
  show ?thesis
    unfolding Let_def blocks_needed_for_nat r(1) using 1 2 3 by simp
qed

section \<open>The bitmap entries an allocation loop changes\<close>

text \<open>
  Every bitmap entry that the loop has changed is the entry of a block that it has put at
  a position of the file that held -1.
\<close>

lemma alloc_blocks_bitmap:
  assumes shape: "fs_shape fs" and ino: "ino < MAX_INODES" and n: "n \<le> NBLOCKS" and i: "i \<le> n"
  shows "\<exists>i'. i' \<le> n \<and> alloc_effect fs ino i (fst (alloc_blocks fs ino i n)) i'
           \<and> (\<forall>c. bitmap (fst (alloc_blocks fs ino i n)) ! c \<noteq> bitmap fs ! c \<longrightarrow>
                  (\<exists>j. i \<le> j \<and> j < i' \<and> block_at fs ino j = - 1
                       \<and> block_at (fst (alloc_blocks fs ino i n)) ino j = int c))
           \<and> (if snd (alloc_blocks fs ino i n) then i' = n
               else i' < n \<and> block_at (fst (alloc_blocks fs ino i n)) ino i' = - 1
                    \<and> get_free_block (fst (alloc_blocks fs ino i n)) = - 1)"
proof -
  let ?P = "\<lambda>g i'. alloc_effect fs ino i g i'
              \<and> (\<forall>c. bitmap g ! c \<noteq> bitmap fs ! c \<longrightarrow>
                    (\<exists>j. i \<le> j \<and> j < i' \<and> block_at fs ino j = - 1 \<and> block_at g ino j = int c))"
  have "\<exists>i'. i \<le> i' \<and> i' \<le> n \<and> ?P (fst (alloc_blocks fs ino i n)) i'
           \<and> (if snd (alloc_blocks fs ino i n) then i' = n
               else i' < n \<and> block_at (fst (alloc_blocks fs ino i n)) ino i' = - 1
                    \<and> get_free_block (fst (alloc_blocks fs ino i n)) = - 1)"
  proof (rule alloc_blocks_rule [where P = ?P])
    show "?P fs i" using shape by (simp add: alloc_effect_refl)
    show "i \<le> n" by (rule i)
  next
    fix g i'
    assume P: "?P g i'" and b: "block_at g ino i' \<noteq> - 1"
    from P b have "alloc_effect fs ino i g (i' + 1)" by (intro alloc_effect_skip) simp_all
    moreover have "\<exists>j. i \<le> j \<and> j < i' + 1 \<and> block_at fs ino j = - 1 \<and> block_at g ino j = int c"
      if "bitmap g ! c \<noteq> bitmap fs ! c" for c
    proof -
      from P that obtain j where "i \<le> j" "j < i'" "block_at fs ino j = - 1" "block_at g ino j = int c"
        by blast
      then show ?thesis by (intro exI [of _ j]) simp
    qed
    ultimately show "?P g (i' + 1)" by blast
  next
    fix g i'
    assume lt: "i' < n" and P: "?P g i'" and b: "block_at g ino i' = - 1"
      and free: "get_free_block g \<noteq> - 1"
    let ?b = "get_free_block g"
    let ?g = "alloc_at g ino i' ?b"
    from P have eff: "alloc_effect fs ino i g i'" by simp
    note D = alloc_effectD [OF eff]
    from lt n have i'N: "i' < NBLOCKS" by simp
    note ba = block_at_alloc_at_shape [OF D(2) ino i'N]
    note rng = get_free_block_range [OF D(2) free]
    note bmg = bitmap_alloc_at_shape [OF D(2) free, of ino i']
    have old: "block_at fs ino i' = - 1" using D(8) [of ino i'] b by simp
    have eff': "alloc_effect fs ino i ?g (i' + 1)"
      using eff b free ino i'N by (rule alloc_effect_alloc)
    moreover have "\<exists>j. i \<le> j \<and> j < i' + 1 \<and> block_at fs ino j = - 1 \<and> block_at ?g ino j = int c"
      if "bitmap ?g ! c \<noteq> bitmap fs ! c" for c
    proof (cases "c = nat ?b")
      case True
      have "block_at ?g ino i' = int c" unfolding ba True using rng(1) by simp
      with D(1) old show ?thesis by (intro exI [of _ i']) simp
    next
      case False
      with that have "bitmap g ! c \<noteq> bitmap fs ! c" by (simp add: bmg)
      with P obtain j where j: "i \<le> j" "j < i'" "block_at fs ino j = - 1" "block_at g ino j = int c"
        by blast
      then have "block_at ?g ino j = int c" unfolding ba by simp
      with j show ?thesis by (intro exI [of _ j]) simp
    qed
    ultimately show "?P ?g (i' + 1)" by blast
  qed
  then show ?thesis by blast
qed


text \<open>The state a write returns with \<open>NoFreeBlock\<close>, and the position where its loop stopped.\<close>

lemma fs_write_file_stopped:
  assumes sh: "fs_shape fs" and w: "fs_write_file fs nm data now = (fs', Inl NoFreeBlock)"
  obtains r i' where "fs_find_inode fs nm = int r" "r < MAX_INODES"
    "i' < blocks_needed_for data" "i' < NBLOCKS"
    "alloc_effect fs r 0 fs' i'" "block_at fs' r i' = - 1" "get_free_block fs' = - 1"
    "\<forall>c. bitmap fs' ! c \<noteq> bitmap fs ! c
        \<longrightarrow> (\<exists>j<i'. block_at fs r j = - 1 \<and> block_at fs' r j = int c)"
proof (cases rule: fs_write_file_cases [of fs nm data now])
  case not_found
  with w show ?thesis by simp
next
  case (too_large r)
  with w show ?thesis by simp
next
  case (written r)
  with w show ?thesis by simp
next
  case (no_block r)
  from no_block(6) w have fs': "fs' = fst (alloc_blocks fs r 0 (blocks_needed_for data))" by simp
  note k = blocks_needed_for_le [OF no_block(4)]
  from alloc_blocks_bitmap [OF sh no_block(2) k le0] no_block(5)
  obtain i' where i': "i' < blocks_needed_for data" "alloc_effect fs r 0 fs' i'"
    "block_at fs' r i' = - 1" "get_free_block fs' = - 1"
    and fr: "\<forall>c. bitmap fs' ! c \<noteq> bitmap fs ! c \<longrightarrow>
                  (\<exists>j. 0 \<le> j \<and> j < i' \<and> block_at fs r j = - 1 \<and> block_at fs' r j = int c)"
    unfolding fs' by auto
  have "\<forall>c. bitmap fs' ! c \<noteq> bitmap fs ! c
        \<longrightarrow> (\<exists>j<i'. block_at fs r j = - 1 \<and> block_at fs' r j = int c)"
    using fr by blast
  moreover from i'(1) k have "i' < NBLOCKS" by simp
  ultimately show ?thesis using no_block(1,2) i' by (intro that [of r i']) simp_all
qed

text \<open>
  A write that fails with \<open>NoFreeBlock\<close> returns before it writes the inode table: the
  table in the file is the one of before the call, and the positions the call has filled
  are in memory only.
\<close>

lemma img_inodes_alloc_at: "img_inodes (fp (alloc_at fs ino i b)) = img_inodes (fp fs)"
  by (simp add: alloc_at_def flush_super_def flush_bitmap_def dec_free_blocks_def set_block_def
      set_inode_block_def)

lemma fs_write_file_failed_image:
  assumes w: "fs_write_file fs nm data now = (fs', Inl NoFreeBlock)"
  shows "img_inodes (fp fs') = img_inodes (fp fs)"
proof (cases rule: fs_write_file_cases [of fs nm data now])
  case not_found
  with w show ?thesis by simp
next
  case (too_large r)
  with w show ?thesis by simp
next
  case (written r)
  with w show ?thesis by simp
next
  case (no_block r)
  let ?n = "blocks_needed_for data"
  from no_block(6) w have fs': "fs' = fst (alloc_blocks fs r 0 ?n)" by simp
  have "\<exists>i'. 0 \<le> i' \<and> i' \<le> ?n
           \<and> img_inodes (fp (fst (alloc_blocks fs r 0 ?n))) = img_inodes (fp fs)
           \<and> (if snd (alloc_blocks fs r 0 ?n) then i' = ?n
               else i' < ?n \<and> block_at (fst (alloc_blocks fs r 0 ?n)) r i' = - 1
                    \<and> get_free_block (fst (alloc_blocks fs r 0 ?n)) = - 1)"
    by (rule alloc_blocks_rule [where P = "\<lambda>g i'. img_inodes (fp g) = img_inodes (fp fs)"])
       (simp_all add: img_inodes_alloc_at)
  then show ?thesis unfolding fs' by blast
qed

text \<open>
  Claim C4. A write that fails with \<open>NoFreeBlock\<close> has stopped at a position \<open>i'\<close> of
  the file that holds -1, before and after, with no free block left. The state it
  returns keeps what the call has allocated below \<open>i'\<close>: every position below \<open>i'\<close>
  holds a block; the positions that held -1 (\<open>new\<close>) hold blocks that were free before
  the call, are marked used now and differ from each other; no other entry of any
  \<open>blocks\<close> and no other bitmap entry has changed; \<open>free_blocks\<close> is lower by the
  number of these positions. When a block was free before the call, the call has filled
  at least one position, and the state it returns is not the state before the call.
  The name is at most \<^verbatim>\<open>MAX_FILENAME - 1\<close> bytes long and the counter is not negative,
  so that the lookup and the decrements of the model are those of the code.
\<close>

theorem fs_write_file_no_rollback:
  assumes "fs_shape fs" and "0 \<le> free_blocks (super fs)" and "length nm < MAX_FILENAME"
    and "fs_write_file fs nm data now = (fs', Inl NoFreeBlock)"
  shows "\<exists>i'<blocks_needed_for data.
          let ino = nat (fs_find_inode fs nm);
              new = filter (\<lambda>j. block_at fs ino j = - 1) [0..<i']
          in block_at fs ino i' = - 1 \<and> block_at fs' ino i' = - 1 \<and> get_free_block fs' = - 1
           \<and> list_all (\<lambda>j. block_at fs' ino j \<noteq> - 1) [0..<i']
           \<and> list_all (\<lambda>j. bitmap fs ! nat (block_at fs' ino j) = 0
                         \<and> bitmap fs' ! nat (block_at fs' ino j) = 1) new
           \<and> distinct (map (block_at fs' ino) new)
           \<and> (\<forall>k j. block_at fs' k j \<noteq> block_at fs k j \<longrightarrow> k = ino \<and> j \<in> set new)
           \<and> (\<forall>c. bitmap fs' ! c \<noteq> bitmap fs ! c \<longrightarrow> int c \<in> block_at fs' ino ` set new)
           \<and> free_blocks (super fs') = free_blocks (super fs) - int (length new)
           \<and> (get_free_block fs \<noteq> - 1 \<longrightarrow> new \<noteq> [] \<and> fs' \<noteq> fs)"
proof -
  from assms(1,4) obtain r i' where r: "fs_find_inode fs nm = int r"
    and i': "i' < blocks_needed_for data"
    and eff: "alloc_effect fs r 0 fs' i'"
    and stop: "block_at fs' r i' = - 1" "get_free_block fs' = - 1"
    and fr': "\<forall>c. bitmap fs' ! c \<noteq> bitmap fs ! c
        \<longrightarrow> (\<exists>j<i'. block_at fs r j = - 1 \<and> block_at fs' r j = int c)"
    by (rule fs_write_file_stopped)
  have fr: "\<exists>j<i'. block_at fs r j = - 1 \<and> block_at fs' r j = int c"
    if "bitmap fs' ! c \<noteq> bitmap fs ! c" for c
    using fr' that by blast
  note D = alloc_effectD [OF eff]
  let ?new = "filter (\<lambda>j. block_at fs r j = - 1) [0..<i']"
  have new: "j \<in> set ?new \<longleftrightarrow> j < i' \<and> block_at fs r j = - 1" for j by auto
  have 1: "block_at fs r i' = - 1" using D(8) [of r i'] stop(1) by simp
  have 2: "list_all (\<lambda>j. block_at fs' r j \<noteq> - 1) [0..<i']"
    unfolding list_all_iff using D(9) by simp
  have 3: "list_all (\<lambda>j. bitmap fs ! nat (block_at fs' r j) = 0
                         \<and> bitmap fs' ! nat (block_at fs' r j) = 1) ?new"
    unfolding list_all_iff using D(11) by simp
  have "inj_on (block_at fs' r) (set ?new)"
  proof (rule inj_onI)
    fix j j' assume a: "j \<in> set ?new" "j' \<in> set ?new" "block_at fs' r j = block_at fs' r j'"
    show "j = j'"
    proof (rule ccontr)
      assume "j \<noteq> j'"
      then consider "j < j'" | "j' < j" by linarith
      then show False
      proof cases
        case 1
        with D(12) [of j j'] a show False unfolding new by simp
      next
        case 2
        with D(12) [of j' j] a show False unfolding new by simp
      qed
    qed
  qed
  then have 4: "distinct (map (block_at fs' r) ?new)" by (simp add: distinct_map)
  have 5: "k = r \<and> j \<in> set ?new" if "block_at fs' k j \<noteq> block_at fs k j" for k j
    using alloc_effect_changed [OF eff that] unfolding new by simp
  have 6: "int c \<in> block_at fs' r ` set ?new" if "bitmap fs' ! c \<noteq> bitmap fs ! c" for c
  proof -
    from fr [OF that] obtain j where "j < i'" "block_at fs r j = - 1" "block_at fs' r j = int c"
      by blast
    then have "j \<in> set ?new" "block_at fs' r j = int c" unfolding new by simp_all
    then show ?thesis by (metis imageI)
  qed
  have 7: "free_blocks (super fs') = free_blocks (super fs) - int (length ?new)" by (rule D(10))
  have 8: "?new \<noteq> []" if free: "get_free_block fs \<noteq> - 1"
  proof
    assume "?new = []"
    then have none: "\<not> (j < i' \<and> block_at fs r j = - 1)" for j
      using new [of j] by simp
    have same: "bitmap fs' ! c = bitmap fs ! c" for c using fr [of c] none by blast
    have "get_free_block fs = - 1"
    proof (rule get_free_block_noneI)
      fix k assume "data_start (super fs) \<le> k" "k < total_blocks (super fs)"
      then have "bitmap fs' ! nat k \<noteq> 0"
        using get_free_block_none [OF stop(2), of k] fs_shapeD(3) [OF D(2)] D(3,4) by simp
      then show "bitmap fs ! nat k \<noteq> 0" unfolding same .
    qed
    with free show False by simp
  qed
  have 9: "fs' \<noteq> fs" if "?new \<noteq> []"
  proof
    assume eq: "fs' = fs"
    from that obtain j where "j \<in> set ?new" by (cases ?new) auto
    then have "j < i'" "block_at fs r j = - 1" unfolding new by simp_all
    with D(9) [of j] show False unfolding eq by simp
  qed
  have f0: "nat (fs_find_inode fs nm) = r" unfolding r by simp
  show ?thesis
    unfolding Let_def f0
    using i' 1 stop 2 3 4 5 6 7 8 9 by (intro exI [of _ i']) blast
qed


section \<open>Evaluating the operations on given states\<close>

lemma fs_write_file_written:
  assumes "fs_find_inode fs nm = int r" and "length data \<le> MAX_FILE_SIZE"
    and "alloc_blocks fs r 0 (blocks_needed_for data) = (fs1, True)"
  shows "fs_write_file fs nm data now
           = (flush_inodes (set_inode_size
                (write_blocks fs1 r data 0 (blocks_needed_for data) (length data))
                r (int (length data)) now), Inr 0)"
  using assms by (simp add: fs_write_file_def blocks_needed_for_def Let_def)

lemma fs_write_file_failed:
  assumes "fs_find_inode fs nm = int r" and "length data \<le> MAX_FILE_SIZE"
    and "alloc_blocks fs r 0 (blocks_needed_for data) = (fs1, False)"
  shows "fs_write_file fs nm data now = (fs1, Inl NoFreeBlock)"
  using assms by (simp add: fs_write_file_def blocks_needed_for_def Let_def)

text \<open>The state after the first create on a formatted image, for a name that fits.\<close>

lemma created_first:
  assumes "nm \<noteq> []" and "length nm < MAX_FILENAME"
  shows "fs_shape (fst (fs_create_file (fs_format isz) nm now))"
    and "super (fst (fs_create_file (fs_format isz) nm now)) = format_super isz"
    and "bitmap (fst (fs_create_file (fs_format isz) nm now)) = (replicate TOTAL_BLOCKS 0)[0 := 1]"
    and "fs_find_inode (fst (fs_create_file (fs_format isz) nm now)) nm = 0"
    and "\<And>j. j < NBLOCKS \<Longrightarrow> block_at (fst (fs_create_file (fs_format isz) nm now)) 0 j = - 1"
    and "size_bytes (inodes (fst (fs_create_file (fs_format isz) nm now)) ! 0) = 0"
proof -
  let ?F = "fs_format isz" and ?C = "fst (fs_create_file (fs_format isz) nm now)"
  show "fs_shape ?C" by (rule fs_create_file_shape [OF fs_shape_fs_format])
  show "super ?C = format_super isz" by (simp add: fs_create_file_layout super_fs_format)
  show "bitmap ?C = (replicate TOTAL_BLOCKS 0)[0 := 1]"
    by (simp add: fs_create_file_layout bitmap_fs_format)
  have free: "find_free_inode_from ?F 0 \<noteq> - 1" by (simp add: find_free_inode_fs_format)
  note l = fs_create_file_lookup [OF length_inodes_fs_format fs_find_inode_fs_format free assms,
      of now, unfolded find_free_inode_fs_format]
  from l show "fs_find_inode ?C nm = 0" by simp
  from l have bl: "blocks (inodes ?C ! 0) = replicate NBLOCKS (- 1)" by simp
  show "block_at ?C 0 j = - 1" if "j < NBLOCKS" for j
    unfolding block_at_def bl using that by simp
  from l show "size_bytes (inodes ?C ! 0) = 0" by simp
qed

lemma format_super_96_fields:
  "data_start (format_super 96) = 5" "total_blocks (format_super 96) = 1024"
  "free_blocks (format_super 96) = 1023"
  by (simp_all add: format_super_def Let_def MAX_INODES_def BLOCK_SIZE_def TOTAL_BLOCKS_def)

text \<open>
  A write of one block, then of a second block, on the file of a state whose bitmap is
  that of a formatted image (with \<^verbatim>\<open>sizeof(Inode)\<close> 96) and whose file has no block.
\<close>

lemma alloc_first_two:
  assumes sh: "fs_shape fs" and sb: "super fs = format_super 96"
    and bm: "bitmap fs = (replicate TOTAL_BLOCKS 0)[0 := 1]"
    and none: "\<forall>j<NBLOCKS. block_at fs 0 j = - 1"
  shows "alloc_blocks fs 0 0 1 = (alloc_at fs 0 0 5, True)"
    and "alloc_blocks fs 0 0 2 = (alloc_at (alloc_at fs 0 0 5) 0 1 6, True)"
    and "\<And>k j. block_at (alloc_at fs 0 0 5) k j = (if k = 0 \<and> j = 0 then 5 else block_at fs k j)"
    and "\<And>k j. block_at (alloc_at (alloc_at fs 0 0 5) 0 1 6) k j
           = (if k = 0 \<and> j = 0 then 5 else if k = 0 \<and> j = 1 then 6 else block_at fs k j)"
proof -
  let ?A1 = "alloc_at fs 0 0 5" and ?A2 = "alloc_at (alloc_at fs 0 0 5) 0 1 6"
  have N: "(0::nat) < MAX_INODES" "(0::nat) < NBLOCKS" "(1::nat) < NBLOCKS"
    by (simp_all add: MAX_INODES_def NBLOCKS_eq)
  have g0: "get_free_block fs = 5"
    by (rule get_free_block_eqI) (simp_all add: sb bm format_super_96_fields TOTAL_BLOCKS_def)
  have sh1: "fs_shape ?A1" by (rule fs_shape_alloc_at [OF sh])
  show ba1: "block_at ?A1 k j = (if k = 0 \<and> j = 0 then 5 else block_at fs k j)" for k j
    by (rule block_at_alloc_at_shape [OF sh N(1,2)])
  show ba2: "block_at ?A2 k j
           = (if k = 0 \<and> j = 0 then 5 else if k = 0 \<and> j = 1 then 6 else block_at fs k j)" for k j
    unfolding block_at_alloc_at_shape [OF sh1 N(1,3)] ba1 by simp
  have bm1: "bitmap ?A1 = (bitmap fs)[5 := 1]"
    using alloc_at_bitmap [of 5 fs 0 0] by (simp add: TOTAL_BLOCKS_def)
  have g1: "get_free_block ?A1 = 6"
  proof (rule get_free_block_eqI)
    fix k :: int assume "data_start (super ?A1) \<le> k" "k < 6"
    then have "k = 5" by (simp add: sb format_super_96_fields)
    then show "bitmap ?A1 ! nat k \<noteq> 0" by (simp add: bm1 bm TOTAL_BLOCKS_def)
  qed (simp_all add: sb bm bm1 format_super_96_fields TOTAL_BLOCKS_def)
  have b00: "block_at fs 0 0 = - 1" using none N(2) by blast
  have "alloc_blocks fs 0 0 1 = alloc_blocks ?A1 0 (0 + 1) 1"
    using alloc_blocks_alloc [of 0 1 fs 0, OF _ b00] g0 by simp
  also have "\<dots> = (?A1, True)" by (simp add: alloc_blocks_done)
  finally show "alloc_blocks fs 0 0 1 = (?A1, True)" .
  have b11: "block_at ?A1 0 1 = - 1" unfolding ba1 using none N(3) by simp
  have "alloc_blocks fs 0 0 2 = alloc_blocks ?A1 0 (0 + 1) 2"
    using alloc_blocks_alloc [of 0 2 fs 0, OF _ b00] g0 by simp
  also have "\<dots> = alloc_blocks ?A2 0 (1 + 1) 2"
    using alloc_blocks_alloc [of 1 2 ?A1 0, OF _ b11] g1 by simp
  also have "\<dots> = (?A2, True)" by (simp add: alloc_blocks_done)
  finally show "alloc_blocks fs 0 0 2 = (?A2, True)" .
qed


lemma name_a_ok: "''a'' \<noteq> []" "length ''a'' < MAX_FILENAME"
  by (simp_all add: MAX_FILENAME_def)

theorem fs_write_file_blocks_witness:
  "fs_shape (fst (fs_create_file (fs_format 96) ''a'' 0))
   \<and> fs_write_file (fst (fs_create_file (fs_format 96) ''a'' 0)) ''a'' ''hello world'' 1
       = (fst (fs_write_file (fst (fs_create_file (fs_format 96) ''a'' 0)) ''a'' ''hello world'' 1),
          Inr 0)
   \<and> nat \<lceil>real (length ''hello world'') / real BLOCK_SIZE\<rceil> = 1
   \<and> block_at (fst (fs_write_file (fst (fs_create_file (fs_format 96) ''a'' 0))
                       ''a'' ''hello world'' 1)) 0 0 \<noteq> - 1
   \<and> block_at (fst (fs_write_file (fst (fs_create_file (fs_format 96) ''a'' 0))
                       ''a'' ''hello world'' 1)) 0 1 = - 1
   \<and> filter (\<lambda>j. block_at (fst (fs_write_file (fst (fs_create_file (fs_format 96) ''a'' 0))
                       ''a'' ''hello world'' 1)) 0 j \<noteq> - 1) [0..<NBLOCKS] = [0..<1]"
proof -
  let ?C = "fst (fs_create_file (fs_format 96) ''a'' 0)"
  let ?W = "fst (fs_write_file ?C ''a'' ''hello world'' 1)"
  note C = created_first [OF name_a_ok, where isz = 96 and now = 0]
  have k: "blocks_needed_for ''hello world'' = 1"
    by (simp add: blocks_needed_for_def BLOCK_SIZE_def)
  have le: "length ''hello world'' \<le> MAX_FILE_SIZE"
    by (simp add: MAX_FILE_SIZE_def BLOCK_SIZE_def)
  have f: "fs_find_inode ?C ''a'' = int 0" using C(4) by simp
  have noneC: "\<forall>j<NBLOCKS. block_at ?C 0 j = - 1" using C(5) by blast
  note al = alloc_first_two(1) [OF C(1,2,3) noneC, folded k]
  from fs_write_file_written [OF f le al]
  have w: "fs_write_file ?C ''a'' ''hello world'' 1 = (?W, Inr 0)" by simp
  have k': "nat \<lceil>real (length ''hello world'') / real BLOCK_SIZE\<rceil> = 1"
    unfolding blocks_needed_for_nat by (rule k)
  note T = fs_write_file_blocks [OF C(1) w, unfolded Let_def C(4) k']
  have old: "\<forall>j\<in>{1..<NBLOCKS}. block_at ?C 0 j = - 1" using C(5) by simp
  from T have "block_at ?W 0 0 \<noteq> - 1" by simp
  moreover from T have "block_at ?W 0 1 = block_at ?C 0 1" by (simp add: NBLOCKS_eq)
  then have "block_at ?W 0 1 = - 1" using C(5) [of 1] by (simp add: NBLOCKS_eq)
  moreover from T old
  have "filter (\<lambda>j. block_at ?W 0 j \<noteq> - 1) [0..<NBLOCKS] = [0..<1]" by simp
  ultimately show ?thesis using C(1) w k' by (intro conjI)
qed

text \<open>
  The claim as stated fails when a file is rewritten with shorter data. After create
  and a write of 4097 bytes the file has two blocks; a write of one byte then succeeds,
  needs \<open>\<lceil>1 / 4096\<rceil> = 1\<close> block, and leaves the entry at position 1 as it is.
\<close>

theorem fs_write_file_blocks_counterexample:
  "fs_find_inode (run (fs_format 96) [Create ''a'' 0, Write ''a'' (replicate 4097 CHR ''x'') 1]) ''a'' = 0
   \<and> snd (fs_write_file
            (run (fs_format 96) [Create ''a'' 0, Write ''a'' (replicate 4097 CHR ''x'') 1])
            ''a'' ''x'' 2) = Inr 0
   \<and> nat \<lceil>real (length ''x'') / real BLOCK_SIZE\<rceil> = 1
   \<and> block_at (fst (fs_write_file
            (run (fs_format 96) [Create ''a'' 0, Write ''a'' (replicate 4097 CHR ''x'') 1])
            ''a'' ''x'' 2)) 0 1 = 6"
proof -
  let ?C = "fst (fs_create_file (fs_format 96) ''a'' 0)"
  let ?d = "replicate 4097 CHR ''x''"
  let ?S = "fst (fs_write_file ?C ''a'' ?d 1)"
  have run: "run (fs_format 96) [Create ''a'' 0, Write ''a'' ?d 1] = ?S" by simp
  note C = created_first [OF name_a_ok, where isz = 96 and now = 0]
  have k: "blocks_needed_for ?d = 2" by (simp add: blocks_needed_for_def BLOCK_SIZE_def)
  have le: "length ?d \<le> MAX_FILE_SIZE" by (simp add: MAX_FILE_SIZE_def BLOCK_SIZE_def)
  have f: "fs_find_inode ?C ''a'' = int 0" using C(4) by simp
  have noneC: "\<forall>j<NBLOCKS. block_at ?C 0 j = - 1" using C(5) by blast
  note al = alloc_first_two [OF C(1,2,3) noneC]
  have A2: "fst (alloc_blocks ?C 0 0 (blocks_needed_for ?d)) = alloc_at (alloc_at ?C 0 0 5) 0 1 6"
    by (simp only: k al(2) fst_conv)
  have baS: "block_at ?S k j
      = (if k = 0 \<and> j = 0 then 5 else if k = 0 \<and> j = 1 then 6 else block_at ?C k j)" for k j
    unfolding block_at_fs_write_file [OF f le] A2 by (rule al(4))
  have shS: "fs_shape ?S" by (rule fs_write_file_shape [OF C(1)])
  have "fs_find_inode ?S ''a'' = fs_find_inode (fst (alloc_blocks ?C 0 0 (blocks_needed_for ?d))) ''a''"
    unfolding fs_find_inode_def
    by (rule fs_find_inode_from_cong) (rule fs_write_file_meta(4) [OF f le])
  also have "\<dots> = fs_find_inode ?C ''a''"
    unfolding fs_find_inode_def A2
    by (rule fs_find_inode_from_cong) simp
  finally have fS: "fs_find_inode ?S ''a'' = int 0" using f by simp
  have k1: "blocks_needed_for ''x'' = 1" by (simp add: blocks_needed_for_def BLOCK_SIZE_def)
  have le1: "length ''x'' \<le> MAX_FILE_SIZE" by (simp add: MAX_FILE_SIZE_def BLOCK_SIZE_def)
  have "block_at ?S 0 0 \<noteq> - 1" unfolding baS by simp
  from alloc_blocks_skip [of 0 1 ?S 0, OF _ this]
  have al1: "alloc_blocks ?S 0 0 (blocks_needed_for ''x'') = (?S, True)"
    unfolding k1 by (simp add: alloc_blocks_done)
  from fs_write_file_written [OF fS le1 al1]
  have ok: "snd (fs_write_file ?S ''a'' ''x'' 2) = Inr 0" by simp
  have "block_at (fst (fs_write_file ?S ''a'' ''x'' 2)) 0 1 = block_at ?S 0 1"
    unfolding block_at_fs_write_file [OF fS le1] al1 by simp
  then have b: "block_at (fst (fs_write_file ?S ''a'' ''x'' 2)) 0 1 = 6" unfolding baS by simp
  have k': "nat \<lceil>real (length ''x'') / real BLOCK_SIZE\<rceil> = 1"
    unfolding blocks_needed_for_nat by (rule k1)
  from fS ok k' b show ?thesis unfolding run by simp
qed

text \<open>
  A state with one free block: the state after the first create, with every bitmap
  entry at 1 but the last.
\<close>

lemma last_block_free:
  assumes sh: "fs_shape fs" and sb: "super fs = format_super 96"
    and bm: "bitmap fs = (replicate TOTAL_BLOCKS 1)[1023 := 0]"
    and none: "\<forall>j<NBLOCKS. block_at fs 0 j = - 1"
  shows "alloc_blocks fs 0 0 2 = (alloc_at fs 0 0 1023, False)"
    and "\<And>k j. block_at (alloc_at fs 0 0 1023) k j = (if k = 0 \<and> j = 0 then 1023 else block_at fs k j)"
    and "bitmap (alloc_at fs 0 0 1023) = replicate TOTAL_BLOCKS 1"
proof -
  let ?A1 = "alloc_at fs 0 0 1023"
  have N: "(0::nat) < MAX_INODES" "(0::nat) < NBLOCKS" "(1::nat) < NBLOCKS"
    by (simp_all add: MAX_INODES_def NBLOCKS_eq)
  have g0: "get_free_block fs = 1023"
  proof (rule get_free_block_eqI)
    fix k :: int assume "data_start (super fs) \<le> k" "k < 1023"
    then have "nat k < 1023" "0 \<le> k" by (simp_all add: sb format_super_96_fields)
    then show "bitmap fs ! nat k \<noteq> 0" by (simp add: bm TOTAL_BLOCKS_def)
  qed (simp_all add: sb bm format_super_96_fields TOTAL_BLOCKS_def)
  show ba1: "block_at ?A1 k j = (if k = 0 \<and> j = 0 then 1023 else block_at fs k j)" for k j
    by (rule block_at_alloc_at_shape [OF sh N(1,2)])
  show bm1: "bitmap ?A1 = replicate TOTAL_BLOCKS 1"
    using alloc_at_bitmap [of 1023 fs 0 0]
    by (simp add: bm TOTAL_BLOCKS_def list_update_same_conv)
  have g1: "get_free_block ?A1 = - 1"
  proof (rule get_free_block_noneI)
    fix k :: int assume "data_start (super ?A1) \<le> k" "k < total_blocks (super ?A1)"
    then have "nat k < TOTAL_BLOCKS"
      by (simp add: sb format_super_96_fields TOTAL_BLOCKS_def)
    then show "bitmap ?A1 ! nat k \<noteq> 0" by (simp add: bm1)
  qed
  have b00: "block_at fs 0 0 = - 1" using none N(2) by blast
  have b11: "block_at ?A1 0 1 = - 1" unfolding ba1 using none N(3) by simp
  have "alloc_blocks fs 0 0 2 = alloc_blocks ?A1 0 (0 + 1) 2"
    using alloc_blocks_alloc [of 0 2 fs 0, OF _ b00] g0 by simp
  also have "\<dots> = (?A1, False)"
    using alloc_blocks_fail [of 1 2 ?A1 0, OF _ b11 g1] by simp
  finally show "alloc_blocks fs 0 0 2 = (?A1, False)" .
qed

theorem fs_write_file_no_rollback_witness:
  "fs_shape ((fst (fs_create_file (fs_format 96) ''a'' 0))
               \<lparr>bitmap := (replicate TOTAL_BLOCKS 1)[1023 := 0]\<rparr>)
   \<and> fs_write_file ((fst (fs_create_file (fs_format 96) ''a'' 0))
               \<lparr>bitmap := (replicate TOTAL_BLOCKS 1)[1023 := 0]\<rparr>) ''a''
         (replicate 4097 CHR ''x'') 1
       = (alloc_at ((fst (fs_create_file (fs_format 96) ''a'' 0))
               \<lparr>bitmap := (replicate TOTAL_BLOCKS 1)[1023 := 0]\<rparr>) 0 0 1023, Inl NoFreeBlock)
   \<and> length ''a'' < MAX_FILENAME
   \<and> get_free_block ((fst (fs_create_file (fs_format 96) ''a'' 0))
               \<lparr>bitmap := (replicate TOTAL_BLOCKS 1)[1023 := 0]\<rparr>) = 1023
   \<and> block_at ((fst (fs_create_file (fs_format 96) ''a'' 0))
               \<lparr>bitmap := (replicate TOTAL_BLOCKS 1)[1023 := 0]\<rparr>) 0 0 = - 1
   \<and> block_at (alloc_at ((fst (fs_create_file (fs_format 96) ''a'' 0))
               \<lparr>bitmap := (replicate TOTAL_BLOCKS 1)[1023 := 0]\<rparr>) 0 0 1023) 0 0 = 1023
   \<and> block_at (alloc_at ((fst (fs_create_file (fs_format 96) ''a'' 0))
               \<lparr>bitmap := (replicate TOTAL_BLOCKS 1)[1023 := 0]\<rparr>) 0 0 1023) 0 1 = - 1
   \<and> bitmap ((fst (fs_create_file (fs_format 96) ''a'' 0))
               \<lparr>bitmap := (replicate TOTAL_BLOCKS 1)[1023 := 0]\<rparr>) ! 1023 = 0
   \<and> bitmap (alloc_at ((fst (fs_create_file (fs_format 96) ''a'' 0))
               \<lparr>bitmap := (replicate TOTAL_BLOCKS 1)[1023 := 0]\<rparr>) 0 0 1023) ! 1023 = 1
   \<and> free_blocks (super ((fst (fs_create_file (fs_format 96) ''a'' 0))
               \<lparr>bitmap := (replicate TOTAL_BLOCKS 1)[1023 := 0]\<rparr>)) = 1023
   \<and> free_blocks (super (alloc_at ((fst (fs_create_file (fs_format 96) ''a'' 0))
               \<lparr>bitmap := (replicate TOTAL_BLOCKS 1)[1023 := 0]\<rparr>) 0 0 1023)) = 1022
   \<and> alloc_at ((fst (fs_create_file (fs_format 96) ''a'' 0))
               \<lparr>bitmap := (replicate TOTAL_BLOCKS 1)[1023 := 0]\<rparr>) 0 0 1023
       \<noteq> (fst (fs_create_file (fs_format 96) ''a'' 0))
               \<lparr>bitmap := (replicate TOTAL_BLOCKS 1)[1023 := 0]\<rparr>"
proof -
  let ?C = "fst (fs_create_file (fs_format 96) ''a'' 0)"
  let ?D = "?C\<lparr>bitmap := (replicate TOTAL_BLOCKS 1)[1023 := 0]\<rparr>"
  let ?A = "alloc_at ?D 0 0 1023"
  let ?d = "replicate 4097 CHR ''x''"
  note C = created_first [OF name_a_ok, where isz = 96 and now = 0]
  have sh: "fs_shape ?D" using C(1) by (simp add: fs_shape_def)
  have sb: "super ?D = format_super 96" using C(2) by simp
  have bm: "bitmap ?D = (replicate TOTAL_BLOCKS 1)[1023 := 0]" by simp
  have none: "\<forall>j<NBLOCKS. block_at ?D 0 j = - 1"
    using C(5) by (simp add: block_at_def)
  have f: "fs_find_inode ?D ''a'' = int 0"
    unfolding fs_find_inode_def using C(4) [unfolded fs_find_inode_def]
    by (subst fs_find_inode_from_cong [of ?D ?C]) simp_all
  have k: "blocks_needed_for ?d = 2" by (simp add: blocks_needed_for_def BLOCK_SIZE_def)
  have le: "length ?d \<le> MAX_FILE_SIZE" by (simp add: MAX_FILE_SIZE_def BLOCK_SIZE_def)
  note lb = last_block_free [OF sh sb bm none]
  from fs_write_file_failed [OF f le lb(1) [folded k]]
  have w: "fs_write_file ?D ''a'' ?d 1 = (?A, Inl NoFreeBlock)" .
  have g: "get_free_block ?D = 1023"
  proof (rule get_free_block_eqI)
    fix k :: int assume "data_start (super ?D) \<le> k" "k < 1023"
    then have "nat k < 1023" "0 \<le> k" by (simp_all add: C(2) format_super_96_fields)
    then show "bitmap ?D ! nat k \<noteq> 0" by (simp add: TOTAL_BLOCKS_def)
  qed (simp_all add: C(2) format_super_96_fields TOTAL_BLOCKS_def)
  have d00: "block_at ?D 0 0 = - 1" using none by (simp add: NBLOCKS_eq)
  have a00: "block_at ?A 0 0 = 1023" unfolding lb(2) by simp
  have a01: "block_at ?A 0 1 = - 1" unfolding lb(2) using none by (simp add: NBLOCKS_eq)
  have bD: "bitmap ?D ! 1023 = 0" by (simp add: TOTAL_BLOCKS_def)
  have fD: "free_blocks (super ?D) = 1023" unfolding sb by (rule format_super_96_fields)
  have f0: "nat (fs_find_inode ?D ''a'') = 0" using f by simp
  have fD0: "0 \<le> free_blocks (super ?D)" unfolding fD by simp
  from fs_write_file_no_rollback [OF sh fD0 name_a_ok(2) w, unfolded Let_def f0 k]
  obtain i' where i': "i' < 2" and stop: "block_at ?A 0 i' = - 1"
    and marked: "list_all (\<lambda>j. bitmap ?D ! nat (block_at ?A 0 j) = 0
                         \<and> bitmap ?A ! nat (block_at ?A 0 j) = 1)
                   (filter (\<lambda>j. block_at ?D 0 j = - 1) [0..<i'])"
    and fb: "free_blocks (super ?A) = free_blocks (super ?D)
               - int (length (filter (\<lambda>j. block_at ?D 0 j = - 1) [0..<i']))"
    and ne: "get_free_block ?D \<noteq> - 1 \<longrightarrow>
               filter (\<lambda>j. block_at ?D 0 j = - 1) [0..<i'] \<noteq> [] \<and> ?A \<noteq> ?D"
    by blast
  have "i' \<noteq> 0"
  proof
    assume "i' = 0"
    with stop have "block_at ?A 0 0 = - 1" by simp
    then show False unfolding a00 by simp
  qed
  with i' have i1: "i' = 1" by simp
  have new: "filter (\<lambda>j. block_at ?D 0 j = - 1) [0..<i'] = [0]" unfolding i1 using d00 by simp
  from marked have "bitmap ?A ! nat (block_at ?A 0 0) = 1" unfolding new by simp
  then have bA: "bitmap ?A ! 1023 = 1" unfolding a00 by simp
  from fb have fA: "free_blocks (super ?A) = 1022" unfolding new fD by simp
  from ne g have neq: "?A \<noteq> ?D" by simp
  from sh w name_a_ok(2) g d00 a00 a01 bD bA fD fA neq show ?thesis by (intro conjI)
qed


section \<open>The data a write leaves in the file\<close>

text \<open>Position \<open>j\<close> is one of the blocks a text needs exactly when the text reaches it.\<close>

lemma less_blocks_needed_for: "j < blocks_needed_for data \<longleftrightarrow> j * BLOCK_SIZE < length data"
proof -
  have pos: "0 < BLOCK_SIZE" by (simp add: BLOCK_SIZE_def)
  have "j < blocks_needed_for data \<longleftrightarrow> j + 1 \<le> (length data + BLOCK_SIZE - 1) div BLOCK_SIZE"
    by (simp add: blocks_needed_for_def Suc_le_eq)
  also have "\<dots> \<longleftrightarrow> (j + 1) * BLOCK_SIZE \<le> length data + BLOCK_SIZE - 1"
    using pos by (rule less_eq_div_iff_mult_less_eq)
  also have "\<dots> \<longleftrightarrow> j * BLOCK_SIZE < length data"
    using pos by auto
  finally show ?thesis .
qed

text \<open>The bytes left to write when the data loop is at position \<open>j\<close>, and its next buffer.\<close>

lemma remaining_step:
  "(length data - j * BLOCK_SIZE) - min (length data - j * BLOCK_SIZE) BLOCK_SIZE
     = length data - (j + 1) * BLOCK_SIZE"
  by (simp add: min_def add.commute)

lemma write_blocks_data:
  assumes "\<And>j. i \<le> j \<Longrightarrow> j < k \<Longrightarrow> block_at fs r j \<noteq> - 1"
    and "\<And>j j'. i \<le> j \<Longrightarrow> j < j' \<Longrightarrow> j' < k \<Longrightarrow> block_at fs r j \<noteq> block_at fs r j'"
  shows "(\<forall>j. i \<le> j \<and> j < k \<longrightarrow>
            img_data (fp (write_blocks fs r data i k (length data - i * BLOCK_SIZE))) (block_at fs r j)
              = block_buffer data j (min (length data - j * BLOCK_SIZE) BLOCK_SIZE))
       \<and> (\<forall>b. (\<forall>j. i \<le> j \<and> j < k \<longrightarrow> b \<noteq> block_at fs r j) \<longrightarrow>
            img_data (fp (write_blocks fs r data i k (length data - i * BLOCK_SIZE))) b
              = img_data (fp fs) b)"
  using assms
proof (induction "k - i" arbitrary: fs i)
  case 0
  then have "\<not> i < k" by simp
  then show ?case by (auto simp add: write_blocks_done)
next
  case (Suc d)
  then have lt: "i < k" and d: "d = k - (i + 1)" by simp_all
  let ?len = "length data - i * BLOCK_SIZE"
  let ?buf = "block_buffer data i (min ?len BLOCK_SIZE)"
  let ?fs = "write_block fs (block_at fs r i) ?buf"
  let ?W = "write_blocks ?fs r data (i + 1) k (length data - (i + 1) * BLOCK_SIZE)"
  have bi: "block_at fs r i \<noteq> - 1" using Suc.prems(1) [of i] lt by simp
  have eq: "write_blocks fs r data i k ?len = ?W"
    unfolding write_blocks_write [OF lt bi] remaining_step ..
  have IH: "(\<forall>j. i + 1 \<le> j \<and> j < k \<longrightarrow>
            img_data (fp ?W) (block_at ?fs r j)
              = block_buffer data j (min (length data - j * BLOCK_SIZE) BLOCK_SIZE))
       \<and> (\<forall>b. (\<forall>j. i + 1 \<le> j \<and> j < k \<longrightarrow> b \<noteq> block_at ?fs r j) \<longrightarrow>
            img_data (fp ?W) b = img_data (fp ?fs) b)"
  proof (rule Suc.hyps(1) [OF d])
    fix j assume "i + 1 \<le> j" "j < k"
    then show "block_at ?fs r j \<noteq> - 1" using Suc.prems(1) [of j] by simp
  next
    fix j j' assume "i + 1 \<le> j" "j < j'" "j' < k"
    then show "block_at ?fs r j \<noteq> block_at ?fs r j'" using Suc.prems(2) [of j j'] by simp
  qed
  have a: "img_data (fp ?W) (block_at fs r j)
              = block_buffer data j (min (length data - j * BLOCK_SIZE) BLOCK_SIZE)"
    if "i \<le> j" "j < k" for j
  proof (cases "j = i")
    case False
    with that IH show ?thesis by simp
  next
    case True
    have "\<forall>j. i + 1 \<le> j \<and> j < k \<longrightarrow> block_at fs r i \<noteq> block_at ?fs r j"
      using Suc.prems(2) [of i] by simp
    with IH have "img_data (fp ?W) (block_at fs r i) = img_data (fp ?fs) (block_at fs r i)"
      by blast
    then show ?thesis unfolding True by simp
  qed
  have b: "img_data (fp ?W) b = img_data (fp fs) b"
    if "\<forall>j. i \<le> j \<and> j < k \<longrightarrow> b \<noteq> block_at fs r j" for b
  proof -
    from that have "\<forall>j. i + 1 \<le> j \<and> j < k \<longrightarrow> b \<noteq> block_at ?fs r j" by simp
    with IH have "img_data (fp ?W) b = img_data (fp ?fs) b" by blast
    moreover from that lt have "b \<noteq> block_at fs r i" by auto
    ultimately show ?thesis by simp
  qed
  from a b show ?case unfolding eq by blast
qed

text \<open>The buffer of a block that the text reaches.\<close>

lemma block_buffer_reached:
  assumes "j * BLOCK_SIZE < length data"
  shows "block_buffer data j (min (length data - j * BLOCK_SIZE) BLOCK_SIZE)
     = Some (take (min (length data - j * BLOCK_SIZE) BLOCK_SIZE) (drop (j * BLOCK_SIZE) data)
             @ replicate (BLOCK_SIZE - min (length data - j * BLOCK_SIZE) BLOCK_SIZE) NUL)"
  using assms by (auto simp add: block_buffer_def min_def)


section \<open>The data a read collects\<close>

lemma read_blocks_done:
  "\<not> (i < NBLOCKS \<and> int br < size_bytes (inodes fs ! ino)) \<Longrightarrow> read_blocks fs ino i br buf = buf"
  by (subst read_blocks.simps, rule if_not_P)

lemma read_blocks_break:
  "i < NBLOCKS \<Longrightarrow> int br < size_bytes (inodes fs ! ino) \<Longrightarrow> block_at fs ino i = - 1
     \<Longrightarrow> read_blocks fs ino i br buf = buf"
  by (subst read_blocks.simps) (simp add: block_at_def)

lemma read_blocks_read:
  "i < NBLOCKS \<Longrightarrow> int br < size_bytes (inodes fs ! ino) \<Longrightarrow> block_at fs ino i \<noteq> - 1
     \<Longrightarrow> read_blocks fs ino i br buf
         = read_blocks fs ino (i + 1) (br + min (nat (size_bytes (inodes fs ! ino) - int br)) BLOCK_SIZE)
             (memcpy_at buf br (read_block fs (block_at fs ino i))
                (min (nat (size_bytes (inodes fs ! ino) - int br)) BLOCK_SIZE))"
  by (subst read_blocks.simps) (auto simp add: block_at_def Let_def min_def)

lemma read_block_full:
  "img_data (fp fs) b = Some bytes \<Longrightarrow> length bytes = BLOCK_SIZE \<Longrightarrow> read_block fs b = map Some bytes"
  by (simp add: read_block_def)

text \<open>A buffer whose first \<open>n\<close> cells and whose cell \<open>n\<close> are known, and that ends there.\<close>

lemma buffer_complete:
  assumes "length buf = n + 1" and "take n buf = xs" and "buf ! n = y"
  shows "buf = xs @ [y]"
proof -
  have "n < length buf" using assms(1) by simp
  then have "take (Suc n) buf = take n buf @ [buf ! n]" by (rule take_Suc_conv_app_nth)
  moreover have "take (Suc n) buf = buf" using assms(1) by simp
  ultimately show ?thesis using assms(2,3) by simp
qed

text \<open>One \<^verbatim>\<open>memcpy\<close> of the read loop extends the part of the buffer that holds the text.\<close>

lemma memcpy_at_text:
  assumes fit: "off + n \<le> length data" and len: "length dst = length data + 1"
    and dst: "take off dst = map Some (take off data)"
    and src: "take n src = map Some (take n (drop off data))"
  shows "length (memcpy_at dst off src n) = length data + 1"
    and "memcpy_at dst off src n ! length data = dst ! length data"
    and "take (off + n) (memcpy_at dst off src n) = map Some (take (off + n) data)"
proof -
  have l1: "length (take off dst) = off" using fit len by simp
  have l2: "length (take n src) = n" unfolding src using fit by simp
  show "length (memcpy_at dst off src n) = length data + 1"
    unfolding memcpy_at_def length_append l1 l2 using fit len by simp
  have a: "\<not> length data < off" "\<not> length data - off < n" using fit by auto
  have "memcpy_at dst off src n ! length data
          = drop (off + n) dst ! (length data - off - n)"
    unfolding memcpy_at_def nth_append l1 l2 if_not_P [OF a(1)] if_not_P [OF a(2)] ..
  also have "\<dots> = dst ! (off + n + (length data - off - n))"
    using fit len by (intro nth_drop) simp
  also have "off + n + (length data - off - n) = length data" using fit by simp
  finally show "memcpy_at dst off src n ! length data = dst ! length data" .
  have "take (off + n) (memcpy_at dst off src n) = take off dst @ take n src"
    unfolding memcpy_at_def using l1 l2 by simp
  also have "\<dots> = map Some (take off data @ take n (drop off data))"
    unfolding dst src by simp
  also have "take off data @ take n (drop off data) = take (off + n) data"
    by (simp add: take_add)
  finally show "take (off + n) (memcpy_at dst off src n) = map Some (take (off + n) data)" .
qed

lemma read_blocks_data:
  assumes sz: "size_bytes (inodes fs ! r) = int (length data)"
    and le: "length data \<le> MAX_FILE_SIZE"
    and blk: "\<And>j. j * BLOCK_SIZE < length data \<Longrightarrow> block_at fs r j \<noteq> - 1 \<and>
           img_data (fp fs) (block_at fs r j)
             = block_buffer data j (min (length data - j * BLOCK_SIZE) BLOCK_SIZE)"
    and buf: "length buf = length data + 1" "buf ! length data = Some NUL"
      "take (min (i * BLOCK_SIZE) (length data)) buf
         = map Some (take (min (i * BLOCK_SIZE) (length data)) data)"
  shows "read_blocks fs r i (min (i * BLOCK_SIZE) (length data)) buf = map Some data @ [Some NUL]"
  using buf
proof (induction "NBLOCKS - i" arbitrary: i buf)
  case 0
  then have "NBLOCKS \<le> i" by simp
  then have "10 * BLOCK_SIZE \<le> i * BLOCK_SIZE" unfolding NBLOCKS_eq by (rule mult_le_mono1)
  with le have "length data \<le> i * BLOCK_SIZE" unfolding MAX_FILE_SIZE_def by linarith
  then have m: "min (i * BLOCK_SIZE) (length data) = length data" by (rule min_absorb2)
  have "read_blocks fs r i (length data) buf = buf"
    by (rule read_blocks_done) (simp add: sz)
  moreover have "buf = map Some data @ [Some NUL]"
    using "0.prems" unfolding m by (intro buffer_complete) simp_all
  ultimately show ?case unfolding m by simp
next
  case (Suc d)
  then have i: "i < NBLOCKS" and d: "d = NBLOCKS - (i + 1)" by simp_all
  show ?case
  proof (cases "i * BLOCK_SIZE < length data")
    case False
    then have m: "min (i * BLOCK_SIZE) (length data) = length data" by simp
    have "read_blocks fs r i (length data) buf = buf"
      by (rule read_blocks_done) (simp add: sz)
    moreover have "buf = map Some data @ [Some NUL]"
      using Suc.prems unfolding m by (intro buffer_complete) simp_all
    ultimately show ?thesis unfolding m by simp
  next
    case True
    let ?off = "i * BLOCK_SIZE"
    let ?n = "min (length data - ?off) BLOCK_SIZE"
    let ?chunk = "take ?n (drop ?off data) @ replicate (BLOCK_SIZE - ?n) NUL"
    let ?src = "read_block fs (block_at fs r i)"
    from True have m: "min ?off (length data) = ?off" by simp
    have m': "min ((i + 1) * BLOCK_SIZE) (length data) = ?off + ?n"
      using True by (auto simp add: min_def)
    have fit: "?off + ?n \<le> length data" using True by simp
    have bi: "block_at fs r i \<noteq> - 1"
      and img: "img_data (fp fs) (block_at fs r i) = Some ?chunk"
      using blk [OF True] block_buffer_reached [OF True] by simp_all
    have "length ?chunk = BLOCK_SIZE" using fit by simp
    with img have src: "?src = map Some ?chunk" by (rule read_block_full)
    have tsrc: "take ?n ?src = map Some (take ?n (drop ?off data))"
      unfolding src using fit by (simp add: take_map)
    have dst: "take ?off buf = map Some (take ?off data)" using Suc.prems(3) unfolding m .
    note M = memcpy_at_text [OF fit Suc.prems(1) dst tsrc]
    have "size_bytes (inodes fs ! r) - int ?off = int (length data - ?off)"
      unfolding sz using True by (simp only: of_nat_diff less_imp_le)
    then have n: "min (nat (size_bytes (inodes fs ! r) - int ?off)) BLOCK_SIZE = ?n"
      by (simp only: nat_int)
    have lt: "int ?off < size_bytes (inodes fs ! r)" unfolding sz using True by (simp only: of_nat_less_iff)
    have "read_blocks fs r i ?off buf
            = read_blocks fs r (i + 1) (?off + ?n) (memcpy_at buf ?off ?src ?n)"
      using read_blocks_read [OF i lt bi, of buf] unfolding n .
    also have "\<dots> = map Some data @ [Some NUL]"
      using Suc.hyps(1) [OF d, of "memcpy_at buf ?off ?src ?n"] M Suc.prems(2)
      unfolding m' by simp
    finally show ?thesis unfolding m .
  qed
qed

text \<open>\<^verbatim>\<open>printf("%s", data)\<close> prints a text without NUL that a NUL follows.\<close>

lemma c_str_text: "NUL \<notin> set data \<Longrightarrow> c_str (map Some data @ [Some NUL]) = Some data"
  by (induction data) auto


section \<open>Write, then read\<close>

text \<open>What a read prints when the slot of the name holds the whole text in its blocks.\<close>

lemma fs_read_file_text:
  assumes f: "fs_find_inode fs nm = int r"
    and sz: "size_bytes (inodes fs ! r) = int (length data)"
    and le: "length data \<le> MAX_FILE_SIZE"
    and nul: "NUL \<notin> set data"
    and blk: "\<And>j. j * BLOCK_SIZE < length data \<Longrightarrow> block_at fs r j \<noteq> - 1 \<and>
           img_data (fp fs) (block_at fs r j)
             = block_buffer data j (min (length data - j * BLOCK_SIZE) BLOCK_SIZE)"
  shows "fs_read_file fs nm = (if data = [] then Read_Empty else Read_Content data)"
proof (cases "data = []")
  case True
  then show ?thesis unfolding fs_read_file_def f by (simp add: sz)
next
  case False
  let ?buf = "replicate (length data) None @ [Some NUL]"
  have "read_blocks fs r 0 (min (0 * BLOCK_SIZE) (length data)) ?buf = map Some data @ [Some NUL]"
    using sz le blk by (rule read_blocks_data) (simp_all add: nth_append)
  then have "read_blocks fs r 0 0 ?buf = map Some data @ [Some NUL]" by simp
  then have "c_str (read_blocks fs r 0 0 ?buf) = Some data" using nul by (simp add: c_str_text)
  then show ?thesis unfolding fs_read_file_def f using False by (simp add: sz)
qed

lemma write_then_read:
  assumes inv: "fs_inv fs" and nul: "NUL \<notin> set data"
    and w: "fs_write_file fs nm data now = (fs', Inr res)"
  shows "fs_read_file fs' nm = (if data = [] then Read_Empty else Read_Content data)"
proof -
  from fs_write_file_ok [OF fs_invD(1) [OF inv] w] obtain r where
    f: "fs_find_inode fs nm = int r" and r: "r < MAX_INODES" and used: "used_slot fs r"
    and le: "length data \<le> MAX_FILE_SIZE"
    and eff: "alloc_effect fs r 0 (fst (alloc_blocks fs r 0 (blocks_needed_for data)))
       (blocks_needed_for data)"
    and fs': "fs' = flush_inodes (set_inode_size
              (write_blocks (fst (alloc_blocks fs r 0 (blocks_needed_for data))) r data 0
                 (blocks_needed_for data) (length data))
              r (int (length data)) now)"
    by blast
  let ?k = "blocks_needed_for data"
  let ?A = "fst (alloc_blocks fs r 0 ?k)"
  let ?W = "write_blocks ?A r data 0 ?k (length data)"
  note D = alloc_effectD [OF eff]
  have invA: "fs_inv ?A" using eff inv by (rule alloc_effect_inv)
  have usedA: "used_slot ?A r" using used by (simp add: alloc_effect_used_slot [OF eff])
  have k: "?k \<le> NBLOCKS" using le by (rule blocks_needed_for_le)
  have ne: "block_at ?A r j \<noteq> - 1" if "j < ?k" for j using D(9) [of j] that by simp
  have dist: "block_at ?A r j \<noteq> block_at ?A r j'" if "j < j'" "j' < ?k" for j j'
  proof
    assume "block_at ?A r j = block_at ?A r j'"
    with blocks_unsharedD [OF fs_invD(3) [OF invA] r _ r _ usedA usedA ne, of j j'] that k
    show False by simp
  qed
  have "(\<forall>j. 0 \<le> j \<and> j < ?k \<longrightarrow>
            img_data (fp (write_blocks ?A r data 0 ?k (length data - 0 * BLOCK_SIZE))) (block_at ?A r j)
              = block_buffer data j (min (length data - j * BLOCK_SIZE) BLOCK_SIZE))
       \<and> (\<forall>b. (\<forall>j. 0 \<le> j \<and> j < ?k \<longrightarrow> b \<noteq> block_at ?A r j) \<longrightarrow>
            img_data (fp (write_blocks ?A r data 0 ?k (length data - 0 * BLOCK_SIZE))) b
              = img_data (fp ?A) b)"
    by (rule write_blocks_data) (simp_all add: ne dist)
  then have W: "img_data (fp ?W) (block_at ?A r j)
              = block_buffer data j (min (length data - j * BLOCK_SIZE) BLOCK_SIZE)"
    if "j < ?k" for j using that by simp
  have inoW: "inodes ?W = inodes ?A" using write_blocks_frame [of ?A r data 0 ?k "length data"] by simp
  have lenW: "r < length (inodes ?W)" unfolding inoW using fs_shapeD(1) [OF D(2)] r by simp
  have names: "name (inodes fs' ! k) = name (inodes fs ! k)" for k
    unfolding fs' by (simp add: inoW D(6))
  have f': "fs_find_inode fs' nm = int r"
    unfolding fs_find_inode_def using fs_find_inode_from_cong [of fs' fs nm 0] names f
    by (simp add: fs_find_inode_def)
  have sz: "size_bytes (inodes fs' ! r) = int (length data)"
    unfolding fs' using size_set_inode_size [OF lenW] by simp
  have blocks': "block_at fs' r j = block_at ?A r j" for j
    unfolding fs' block_at_def by (simp add: inoW)
  have img': "img_data (fp fs') = img_data (fp ?W)" unfolding fs' by simp
  have blk: "block_at fs' r j \<noteq> - 1 \<and>
           img_data (fp fs') (block_at fs' r j)
             = block_buffer data j (min (length data - j * BLOCK_SIZE) BLOCK_SIZE)"
    if "j * BLOCK_SIZE < length data" for j
  proof -
    from that have "j < ?k" by (simp add: less_blocks_needed_for)
    then show ?thesis unfolding blocks' img' using ne W by simp
  qed
  from f' sz le nul blk show ?thesis by (rule fs_read_file_text)
qed


text \<open>
  Claim C1, for the states of a session. In a state that create, write, read and list
  operations with names of at most \<^verbatim>\<open>MAX_FILENAME - 1\<close> bytes reach from a freshly
  formatted image, when the write of a text to such a name succeeds, the read of the same
  name that follows delivers that text. The text is a C string, so it holds no NUL; the
  write succeeds only for a name in the inode table and a text of at most
  \<open>10 * BLOCK_SIZE\<close> bytes. In these states every block of a file lies in the data
  region, behind the inode table and the bitmap, and at one position only
  (\<open>fs_inv_fs_format\<close>, \<open>run_inv\<close>), so the writes of the data blocks and of the
  metadata do not meet in the file.
\<close>

theorem write_read_roundtrip:
  assumes "list_all op_ok ops" and "length nm < MAX_FILENAME" and "NUL \<notin> set data"
    and "fs_write_file (run (fs_format isz) ops) nm data now = (fs', Inr res)"
  shows "read_content (fs_read_file fs' nm) = Some data"
proof -
  have "fs_inv (fs_format isz)" by (rule fs_inv_fs_format)
  then have "fs_inv (run (fs_format isz) ops)" by (rule run_inv)
  from this assms(3,4)
  have "fs_read_file fs' nm = (if data = [] then Read_Empty else Read_Content data)"
    by (rule write_then_read)
  then show ?thesis by (cases "data = []") simp_all
qed

theorem write_read_roundtrip_witness:
  "list_all op_ok [Create ''a'' 0]
   \<and> length ''a'' < MAX_FILENAME
   \<and> NUL \<notin> set (replicate 4096 CHR ''x'' @ ''y'')
   \<and> fs_write_file (run (fs_format 96) [Create ''a'' 0]) ''a'' (replicate 4096 CHR ''x'' @ ''y'') 1
       = (fst (fs_write_file (run (fs_format 96) [Create ''a'' 0]) ''a''
                 (replicate 4096 CHR ''x'' @ ''y'') 1), Inr 0)
   \<and> read_content (fs_read_file
        (fst (fs_write_file (run (fs_format 96) [Create ''a'' 0]) ''a''
                 (replicate 4096 CHR ''x'' @ ''y'') 1))
        ''a'') = Some (replicate 4096 CHR ''x'' @ ''y'')"
proof -
  let ?C = "fst (fs_create_file (fs_format 96) ''a'' 0)"
  let ?d = "replicate 4096 CHR ''x'' @ ''y''"
  let ?W = "fst (fs_write_file (run (fs_format 96) [Create ''a'' 0]) ''a'' ?d 1)"
  have run: "run (fs_format 96) [Create ''a'' 0] = ?C" by simp
  note C = created_first [OF name_a_ok, where isz = 96 and now = 0]
  have ok: "list_all op_ok [Create ''a'' 0]" by (simp add: MAX_FILENAME_def)
  have nul: "NUL \<notin> set ?d" by (simp add: NUL_def)
  have k: "blocks_needed_for ?d = 2" by (simp add: blocks_needed_for_def BLOCK_SIZE_def)
  have le: "length ?d \<le> MAX_FILE_SIZE" by (simp add: MAX_FILE_SIZE_def BLOCK_SIZE_def)
  have f: "fs_find_inode ?C ''a'' = int 0" using C(4) by simp
  have noneC: "\<forall>j<NBLOCKS. block_at ?C 0 j = - 1" using C(5) by blast
  note al = alloc_first_two(2) [OF C(1,2,3) noneC, folded k]
  from fs_write_file_written [OF f le al, of 1]
  have w: "fs_write_file (run (fs_format 96) [Create ''a'' 0]) ''a'' ?d 1 = (?W, Inr 0)"
    unfolding run by simp
  note T = write_read_roundtrip [OF ok name_a_ok(2) nul w]
  from ok name_a_ok(2) nul w T show ?thesis by (intro conjI)
qed

text \<open>The text of a buffer whose first cell holds a character and whose second holds NUL.\<close>

lemma c_str_one:
  assumes "2 \<le> length buf" and "buf ! 0 = Some c" and "c \<noteq> NUL" and "buf ! 1 = Some NUL"
  shows "c_str buf = Some [c]"
proof -
  from assms(1) obtain x y rest where buf: "buf = x # y # rest"
    by (cases buf; cases "tl buf") auto
  with assms(2-4) show ?thesis by simp
qed

text \<open>The mounted image \<open>shared_block_image\<close>: one file, with block 7 at two positions.\<close>

lemma shared_block_state:
  "fs_shape (fs_mount shared_block_image)"
  "fs_find_inode (fs_mount shared_block_image) ''a'' = int 0"
  "block_at (fs_mount shared_block_image) 0 0 = 7"
  "block_at (fs_mount shared_block_image) 0 1 = 7"
  "length (inodes (fs_mount shared_block_image)) = MAX_INODES"
proof -
  let ?M = "fs_mount shared_block_image"
  have ino: "inodes ?M = (replicate MAX_INODES zero_inode)
        [0 := \<lparr>name = ''a'', size_bytes = 0, blocks = [7, 7] @ replicate 8 (- 1),
               created = 0, modified = 0\<rparr>]"
    by (simp add: fs_mount_def shared_block_image_def)
  have i0: "inodes ?M ! 0 = \<lparr>name = ''a'', size_bytes = 0, blocks = [7, 7] @ replicate 8 (- 1),
               created = 0, modified = 0\<rparr>"
    unfolding ino by (simp add: MAX_INODES_def)
  have ik: "inodes ?M ! k = zero_inode" if "0 < k" "k < MAX_INODES" for k
    unfolding ino using that by simp
  show "length (inodes ?M) = MAX_INODES" unfolding ino by simp
  have "length (blocks (inodes ?M ! k)) = NBLOCKS" if "k < MAX_INODES" for k
  proof (cases "k = 0")
    case True
    then show ?thesis by (simp add: i0 NBLOCKS_eq)
  next
    case False
    with that show ?thesis by (simp add: ik zero_inode_def)
  qed
  then show "fs_shape ?M"
    unfolding fs_shape_def
    by (simp add: ino) (simp add: fs_mount_def shared_block_image_def format_super_96_fields
        TOTAL_BLOCKS_def)
  show "fs_find_inode ?M ''a'' = int 0"
    unfolding fs_find_inode_def
    by (rule fs_find_inode_from_hit) (simp_all add: i0 MAX_INODES_def)
  show "block_at ?M 0 0 = 7" "block_at ?M 0 1 = 7" by (simp_all add: block_at_def i0)
qed


text \<open>Its layout is the one of format, and block 7 lies in the data region and is marked.\<close>

lemma shared_block_owned:
  "data_start (super (fs_mount shared_block_image)) = 5"
  "blocks_owned (fs_mount shared_block_image)"
proof -
  let ?M = "fs_mount shared_block_image"
  have sup: "data_start (super ?M) = 5" "total_blocks (super ?M) = 1024"
    by (simp_all add: fs_mount_def shared_block_image_def format_super_96_fields)
  show "data_start (super ?M) = 5" by (rule sup)
  have ino: "inodes ?M = (replicate MAX_INODES zero_inode)
        [0 := \<lparr>name = ''a'', size_bytes = 0, blocks = [7, 7] @ replicate 8 (- 1),
               created = 0, modified = 0\<rparr>]"
    by (simp add: fs_mount_def shared_block_image_def)
  have bm: "bitmap ?M ! 7 = 1"
    by (simp add: fs_mount_def shared_block_image_def TOTAL_BLOCKS_def)
  show "blocks_owned ?M"
  proof (rule blocks_ownedI)
    fix k j
    assume k: "k < MAX_INODES" and j: "j < NBLOCKS" and used: "used_slot ?M k"
      and b: "block_at ?M k j \<noteq> - 1"
    have k0: "k = 0"
    proof (rule ccontr)
      assume "k \<noteq> 0"
      with k have "inodes ?M ! k = zero_inode" unfolding ino by simp
      with used show False by (simp add: used_slot_def zero_inode_def)
    qed
    have bl: "block_at ?M 0 j = ([7, 7] @ replicate 8 (- 1)) ! j"
      unfolding block_at_def ino by (simp add: MAX_INODES_def)
    have "block_at ?M 0 j = 7"
    proof (cases "j < 2")
      case True
      then have "j = 0 \<or> j = 1" by auto
      then show ?thesis using shared_block_state(3,4) by auto
    next
      case False
      with j have "([7, 7] @ replicate 8 (- 1 :: int)) ! j = - 1"
        by (simp add: nth_append NBLOCKS_eq)
      with b show ?thesis unfolding k0 bl by simp
    qed
    then show "data_start (super ?M) \<le> block_at ?M k j \<and> block_at ?M k j < total_blocks (super ?M)
         \<and> bitmap ?M ! nat (block_at ?M k j) = 1"
      unfolding k0 sup using bm by simp
  qed
qed


text \<open>
  The claim as stated fails in a mounted state that mount accepts without a check: in
  \<open>shared_block_image\<close> the layout is the one of format, the name has one byte, and
  the file has block 7 of the data region at positions 0 and 1. The write of 4097 bytes
  succeeds without allocating; it writes block 7 twice, the second time with the last
  byte and zeros, and the read prints that byte alone.
\<close>

theorem write_read_roundtrip_counterexample:
  "fs_shape (fs_mount shared_block_image)
   \<and> blocks_owned (fs_mount shared_block_image)
   \<and> data_start (super (fs_mount shared_block_image)) = 5
   \<and> fs_find_inode (fs_mount shared_block_image) ''a'' = 0
   \<and> NUL \<notin> set (replicate 4096 CHR ''x'' @ ''y'')
   \<and> length (replicate 4096 CHR ''x'' @ ''y'') \<le> 10 * BLOCK_SIZE
   \<and> snd (fs_write_file (fs_mount shared_block_image) ''a'' (replicate 4096 CHR ''x'' @ ''y'') 1)
       = Inr 0
   \<and> fs_read_file
        (fst (fs_write_file (fs_mount shared_block_image) ''a'' (replicate 4096 CHR ''x'' @ ''y'') 1))
        ''a'' = Read_Content ''y''"
proof -
  let ?M = "fs_mount shared_block_image"
  let ?d = "replicate 4096 CHR ''x'' @ ''y''"
  let ?F = "fst (fs_write_file ?M ''a'' ?d 1)"
  let ?last = "CHR ''y'' # replicate 4095 NUL"
  note S = shared_block_state
  have nul: "NUL \<notin> set ?d" by (simp add: NUL_def)
  have len: "length ?d = 4097" by simp
  have le10: "length ?d \<le> 10 * BLOCK_SIZE" by (simp add: BLOCK_SIZE_def)
  have le: "length ?d \<le> MAX_FILE_SIZE" by (simp add: MAX_FILE_SIZE_def BLOCK_SIZE_def)
  have k: "blocks_needed_for ?d = 2" by (simp add: blocks_needed_for_def BLOCK_SIZE_def)
  have N: "(0::nat) < NBLOCKS" "(1::nat) < NBLOCKS" by (simp_all add: NBLOCKS_eq)
  have s0: "block_at ?M 0 0 \<noteq> - 1" unfolding S(3) by simp
  have s1: "block_at ?M 0 1 \<noteq> - 1" unfolding S(4) by simp
  text \<open>The allocation loop passes both positions.\<close>
  have "alloc_blocks ?M 0 0 2 = alloc_blocks ?M 0 (0 + 1) 2"
    by (rule alloc_blocks_skip [OF _ s0]) simp
  also have "\<dots> = alloc_blocks ?M 0 (1 + 1) 2"
    using alloc_blocks_skip [of 1 2 ?M 0, OF _ s1] by simp
  also have "\<dots> = (?M, True)" by (simp add: alloc_blocks_done)
  finally have al: "alloc_blocks ?M 0 0 (blocks_needed_for ?d) = (?M, True)" unfolding k .
  text \<open>The data loop writes block 7 at both positions.\<close>
  let ?b0 = "block_buffer ?d 0 BLOCK_SIZE"
  let ?b1 = "block_buffer ?d 1 1"
  let ?W1 = "write_block ?M 7 ?b0"
  let ?W2 = "write_block ?W1 7 ?b1"
  have m0: "min (4097::nat) BLOCK_SIZE = BLOCK_SIZE" "(4097::nat) - BLOCK_SIZE = 1"
    "min (1::nat) BLOCK_SIZE = 1"
    by (simp_all add: BLOCK_SIZE_def)
  have lt: "(0::nat) < 2" "(1::nat) < 2" by simp_all
  have w1: "block_at ?W1 0 1 \<noteq> - 1" unfolding block_at_write_block by (rule s1)
  have "write_blocks ?M 0 ?d 0 2 4097 = write_blocks ?W1 0 ?d 1 2 1"
    using write_blocks_write [OF lt(1) s0, of ?d 4097] unfolding m0 S(3) add_0 .
  also have "\<dots> = write_blocks ?W2 0 ?d (1 + 1) 2 (1 - 1)"
    using write_blocks_write [OF lt(2) w1, of ?d 1] unfolding m0 block_at_write_block S(4) .
  also have "\<dots> = ?W2" by (rule write_blocks_done) simp
  finally have W: "write_blocks ?M 0 ?d 0 (blocks_needed_for ?d) (length ?d) = ?W2"
    unfolding k len .
  have b1: "?b1 = Some ?last" by (simp add: block_buffer_def BLOCK_SIZE_def)
  from fs_write_file_written [OF S(2) le al, of 1]
  have w: "fs_write_file ?M ''a'' ?d 1
             = (flush_inodes (set_inode_size ?W2 0 (int (length ?d)) 1), Inr 0)"
    unfolding W .
  then have F: "?F = flush_inodes (set_inode_size ?W2 0 (int (length ?d)) 1)" by simp
  have ok: "snd (fs_write_file ?M ''a'' ?d 1) = Inr 0" using w by simp
  text \<open>The state the write leaves.\<close>
  have sz: "size_bytes (inodes ?F ! 0) = 4097"
    unfolding F using size_set_inode_size [of 0 ?W2 "int (length ?d)" 1]
    by (simp add: S(5) MAX_INODES_def)
  have ba: "block_at ?F 0 j = block_at ?M 0 j" for j unfolding F block_at_def by simp
  have "img_data (fp ?F) 7 = ?b1" unfolding F by simp
  then have img: "img_data (fp ?F) 7 = Some ?last" unfolding b1 .
  have "fs_find_inode_from ?F ''a'' 0 = fs_find_inode_from ?M ''a'' 0"
    by (rule fs_find_inode_from_cong) (simp add: F)
  then have f: "fs_find_inode ?F ''a'' = int 0" using S(2) by (simp add: fs_find_inode_def)
  text \<open>The read copies block 7 twice.\<close>
  define B where "B = map Some ?last"
  define buf where "buf = replicate 4097 None @ [Some (NUL :: char)]"
  define X where "X = memcpy_at buf 0 B BLOCK_SIZE"
  define Y where "Y = memcpy_at X BLOCK_SIZE B 1"
  have lB: "length B = BLOCK_SIZE" and B0: "B ! 0 = Some CHR ''y''" and B1: "B ! 1 = Some NUL"
    by (simp_all add: B_def BLOCK_SIZE_def)
  have lbuf: "length buf = BLOCK_SIZE + 2" by (simp add: buf_def BLOCK_SIZE_def)
  have B: "read_block ?F 7 = B"
    unfolding B_def using img by (rule read_block_full) (simp add: BLOCK_SIZE_def)
  have c0: "min (nat (size_bytes (inodes ?F ! 0) - int 0)) BLOCK_SIZE = BLOCK_SIZE"
    and c1: "min (nat (size_bytes (inodes ?F ! 0) - int BLOCK_SIZE)) BLOCK_SIZE = 1"
    unfolding sz by (simp_all add: BLOCK_SIZE_def)
  have lt0: "int 0 < size_bytes (inodes ?F ! 0)"
    and lt1: "int BLOCK_SIZE < size_bytes (inodes ?F ! 0)"
    unfolding sz by (simp_all add: BLOCK_SIZE_def)
  have nb0: "block_at ?F 0 0 \<noteq> - 1" unfolding ba by (rule s0)
  have nb1: "block_at ?F 0 1 \<noteq> - 1" unfolding ba by (rule s1)
  have "read_blocks ?F 0 0 0 buf = read_blocks ?F 0 1 BLOCK_SIZE X"
    using read_blocks_read [OF N(1) lt0 nb0, of buf] unfolding c0 ba S(3) B add_0 X_def .
  also have "\<dots> = read_blocks ?F 0 (1 + 1) (BLOCK_SIZE + 1) Y"
    using read_blocks_read [OF N(2) lt1 nb1, of X] unfolding c1 ba S(4) B Y_def .
  also have "\<dots> = Y" by (rule read_blocks_done) (simp add: sz BLOCK_SIZE_def)
  finally have rd: "read_blocks ?F 0 0 0 (replicate 4097 None @ [Some NUL]) = Y"
    unfolding buf_def .
  have X: "X = B @ drop BLOCK_SIZE buf" unfolding X_def memcpy_at_def using lB by simp
  have Y: "Y = B @ (take 1 B @ drop (BLOCK_SIZE + 1) X)"
    unfolding Y_def memcpy_at_def unfolding X using lB by simp
  have pos: "0 < length B" "1 < length B" unfolding lB by (simp_all add: BLOCK_SIZE_def)
  have y0: "Y ! 0 = Some CHR ''y''" unfolding Y nth_append if_P [OF pos(1)] by (rule B0)
  have y1: "Y ! 1 = Some NUL" unfolding Y nth_append if_P [OF pos(2)] by (rule B1)
  have ly: "2 \<le> length Y" unfolding Y using lB by (simp add: BLOCK_SIZE_def)
  have "c_str Y = Some ''y''" using ly y0 _ y1 by (rule c_str_one) (simp add: NUL_def)
  then have r: "fs_read_file ?F ''a'' = Read_Content ''y''"
    unfolding fs_read_file_def f Let_def by (simp add: sz rd)
  from S(1) shared_block_owned(2,1) S(2) nul le10 ok r show ?thesis by simp
qed

end
